theory Spec2Isabelle
  imports Main "HOL-Library.Word"
begin

unbundle bit_operations_syntax

section \<open>Go values\<close>

text \<open>
  The embedding follows the current \<open>ByteBuffer\<close> of \<open>bytebuffer.go\<close> (the second
  package in the file, with \<open>TRUE\<close>, \<open>FALSE\<close> and the \<open>SIZEOF\<close> constants).

  A Go \<open>int\<close> is modelled as an \<open>int\<close> of HOL in the 64-bit range; the additions of the
  source that can leave that range wrap around, as Go's do (\<open>add_int\<close>). Bytes are
  \<open>8 word\<close>; \<open>uint16\<close>, \<open>uint32\<close> and \<open>uint64\<close> are words, and a float is the word of its
  IEEE-754 bit pattern under a constructor (\<open>math.Float32bits\<close> and
  \<open>math.Float32frombits\<close> reinterpret the bits). A Go string is the list of its bytes.
\<close>

type_synonym byte = "8 word"
type_synonym uint16 = "16 word"
type_synonym uint32 = "32 word"
type_synonym uint64 = "64 word"

text \<open>
  An \<open>int16\<close>, \<open>int32\<close> or \<open>int64\<close> is the integer it stands for. The conversion
  \<open>uint16(v)\<close> of a signed value keeps its two's complement bits (\<open>word_of_int\<close>), and
  \<open>int16(w)\<close> reads a word as two's complement (\<open>sint\<close>).
\<close>

definition is_int16 :: "int \<Rightarrow> bool" where
  "is_int16 v \<longleftrightarrow> - (2 ^ 15) \<le> v \<and> v < 2 ^ 15"

definition is_int32 :: "int \<Rightarrow> bool" where
  "is_int32 v \<longleftrightarrow> - (2 ^ 31) \<le> v \<and> v < 2 ^ 31"

definition is_int64 :: "int \<Rightarrow> bool" where
  "is_int64 v \<longleftrightarrow> - (2 ^ 63) \<le> v \<and> v < 2 ^ 63"

datatype float32 = Float32frombits (Float32bits: uint32)
datatype float64 = Float64frombits (Float64bits: uint64)

definition min_int :: int where
  "min_int = - (2 ^ 63)"

definition max_int :: int where
  "max_int = 2 ^ 63 - 1"

definition is_int :: "int \<Rightarrow> bool" where
  "is_int x \<longleftrightarrow> min_int \<le> x \<and> x \<le> max_int"

text \<open>Addition of two Go \<open>int\<close>s: the sum in two's complement on 64 bits.\<close>

definition add_int :: "int \<Rightarrow> int \<Rightarrow> int" where
  "add_int a b = signed_take_bit 63 (a + b)"

text \<open>
  \<open>len\<close> of a slice. No slice is larger than the heap, and the Go runtime addresses at
  most 60 bits of heap on a 64-bit platform (48 on most); \<open>max_len\<close> is a bound above
  that, so the slices of the model include every slice a program can hold.
\<close>

definition len :: "'a list \<Rightarrow> int" where
  "len xs = int (length xs)"

definition max_len :: int where
  "max_len = 2 ^ 61"

text \<open>A call returns its results or panics.\<close>

datatype 'a outcome = Returns 'a | Panics

text \<open>\<open>s[i]\<close> is in range; \<open>s[lo:]\<close> and \<open>s[lo:hi]\<close> of a slice whose capacity is its length.\<close>

definition in_range :: "'a list \<Rightarrow> int \<Rightarrow> bool" where
  "in_range s i \<longleftrightarrow> 0 \<le> i \<and> i < len s"

definition slice_from :: "'a list \<Rightarrow> int \<Rightarrow> 'a list option" where
  "slice_from s lo = (if 0 \<le> lo \<and> lo \<le> len s then Some (drop (nat lo) s) else None)"

definition slice_range :: "'a list \<Rightarrow> int \<Rightarrow> int \<Rightarrow> 'a list option" where
  "slice_range s lo hi =
     (if 0 \<le> lo \<and> lo \<le> hi \<and> hi \<le> len s then Some (take (nat (hi - lo)) (drop (nat lo) s))
      else None)"

section \<open>encoding/binary\<close>

text \<open>
  The two byte orders of Go's \<open>encoding/binary\<close>, \<open>binary.LittleEndian\<close> and
  \<open>binary.BigEndian\<close>, which the package names as the values of the buffer's
  \<open>order\<close>. Each function first touches the last byte it needs, so it panics
  (\<open>None\<close>) on a slice that is too short, and writes or reads the leading bytes only.
\<close>

datatype ByteOrder = LittleEndian | BigEndian

fun PutUint16 :: "ByteOrder \<Rightarrow> uint16 \<Rightarrow> byte list \<Rightarrow> byte list option" where
  "PutUint16 LittleEndian v b =
     (if length b < 2 then None
      else Some (b[0 := ucast v, 1 := ucast (drop_bit 8 v)]))"
| "PutUint16 BigEndian v b =
     (if length b < 2 then None
      else Some (b[0 := ucast (drop_bit 8 v), 1 := ucast v]))"

fun PutUint32 :: "ByteOrder \<Rightarrow> uint32 \<Rightarrow> byte list \<Rightarrow> byte list option" where
  "PutUint32 LittleEndian v b =
     (if length b < 4 then None
      else Some (b[0 := ucast v, 1 := ucast (drop_bit 8 v), 2 := ucast (drop_bit 16 v),
                   3 := ucast (drop_bit 24 v)]))"
| "PutUint32 BigEndian v b =
     (if length b < 4 then None
      else Some (b[0 := ucast (drop_bit 24 v), 1 := ucast (drop_bit 16 v),
                   2 := ucast (drop_bit 8 v), 3 := ucast v]))"

fun PutUint64 :: "ByteOrder \<Rightarrow> uint64 \<Rightarrow> byte list \<Rightarrow> byte list option" where
  "PutUint64 LittleEndian v b =
     (if length b < 8 then None
      else Some (b[0 := ucast v, 1 := ucast (drop_bit 8 v), 2 := ucast (drop_bit 16 v),
                   3 := ucast (drop_bit 24 v), 4 := ucast (drop_bit 32 v),
                   5 := ucast (drop_bit 40 v), 6 := ucast (drop_bit 48 v),
                   7 := ucast (drop_bit 56 v)]))"
| "PutUint64 BigEndian v b =
     (if length b < 8 then None
      else Some (b[0 := ucast (drop_bit 56 v), 1 := ucast (drop_bit 48 v),
                   2 := ucast (drop_bit 40 v), 3 := ucast (drop_bit 32 v),
                   4 := ucast (drop_bit 24 v), 5 := ucast (drop_bit 16 v),
                   6 := ucast (drop_bit 8 v), 7 := ucast v]))"

fun Uint16 :: "ByteOrder \<Rightarrow> byte list \<Rightarrow> uint16 option" where
  "Uint16 LittleEndian b =
     (if length b < 2 then None
      else Some (ucast (b ! 0) OR push_bit 8 (ucast (b ! 1))))"
| "Uint16 BigEndian b =
     (if length b < 2 then None
      else Some (ucast (b ! 1) OR push_bit 8 (ucast (b ! 0))))"

fun Uint32 :: "ByteOrder \<Rightarrow> byte list \<Rightarrow> uint32 option" where
  "Uint32 LittleEndian b =
     (if length b < 4 then None
      else Some (ucast (b ! 0) OR push_bit 8 (ucast (b ! 1)) OR push_bit 16 (ucast (b ! 2))
                 OR push_bit 24 (ucast (b ! 3))))"
| "Uint32 BigEndian b =
     (if length b < 4 then None
      else Some (ucast (b ! 3) OR push_bit 8 (ucast (b ! 2)) OR push_bit 16 (ucast (b ! 1))
                 OR push_bit 24 (ucast (b ! 0))))"

fun Uint64 :: "ByteOrder \<Rightarrow> byte list \<Rightarrow> uint64 option" where
  "Uint64 LittleEndian b =
     (if length b < 8 then None
      else Some (ucast (b ! 0) OR push_bit 8 (ucast (b ! 1)) OR push_bit 16 (ucast (b ! 2))
                 OR push_bit 24 (ucast (b ! 3)) OR push_bit 32 (ucast (b ! 4))
                 OR push_bit 40 (ucast (b ! 5)) OR push_bit 48 (ucast (b ! 6))
                 OR push_bit 56 (ucast (b ! 7))))"
| "Uint64 BigEndian b =
     (if length b < 8 then None
      else Some (ucast (b ! 7) OR push_bit 8 (ucast (b ! 6)) OR push_bit 16 (ucast (b ! 5))
                 OR push_bit 24 (ucast (b ! 4)) OR push_bit 32 (ucast (b ! 3))
                 OR push_bit 40 (ucast (b ! 2)) OR push_bit 48 (ucast (b ! 1))
                 OR push_bit 56 (ucast (b ! 0))))"

section \<open>The buffer\<close>

datatype error = ErrorWriteOverflow | ErrorReadOverflow | ErrorPositionOverflow

record ByteBuffer =
  cap :: int
  buf :: "byte list"
  length_bb :: int
  offset :: int
  order :: ByteOrder

definition TRUE :: byte where "TRUE = 1"
definition FALSE :: byte where "FALSE = 0"

definition SIZEOF_1_BYTE :: int where "SIZEOF_1_BYTE = 1"
definition SIZEOF_2_BYTE :: int where "SIZEOF_2_BYTE = 2"
definition SIZEOF_4_BYTE :: int where "SIZEOF_4_BYTE = 4"
definition SIZEOF_8_BYTE :: int where "SIZEOF_8_BYTE = 8"

text \<open>\<open>make([]byte, cap)\<close> panics on a negative length and on one no slice can have.\<close>

definition NewByteBuffer :: "int \<Rightarrow> ByteOrder \<Rightarrow> ByteBuffer outcome" where
  "NewByteBuffer c ord =
     (if c < 0 \<or> max_len < c then Panics
      else Returns \<lparr>cap = c, buf = replicate (nat c) 0, length_bb = 0, offset = 0,
                     order = ord\<rparr>)"

definition Length :: "ByteBuffer \<Rightarrow> int" where
  "Length b = length_bb b"

definition Cap :: "ByteBuffer \<Rightarrow> int" where
  "Cap b = cap b"

definition Position :: "ByteBuffer \<Rightarrow> int" where
  "Position b = offset b"

definition SetPosition :: "ByteBuffer \<Rightarrow> int \<Rightarrow> error option \<times> ByteBuffer" where
  "SetPosition b asbOffset =
     (if asbOffset < 0 \<or> asbOffset > length_bb b then (Some ErrorPositionOverflow, b)
      else (None, b\<lparr>offset := asbOffset\<rparr>))"

definition Reset :: "ByteBuffer \<Rightarrow> ByteBuffer" where
  "Reset b = b\<lparr>length_bb := 0, offset := 0\<rparr>"

definition SetOrder :: "ByteBuffer \<Rightarrow> ByteOrder \<Rightarrow> ByteBuffer" where
  "SetOrder b ord = b\<lparr>order := ord\<rparr>"

definition Buffer :: "ByteBuffer \<Rightarrow> byte list" where
  "Buffer b = buf b"

definition Data :: "ByteBuffer \<Rightarrow> byte list outcome" where
  "Data b = (case slice_range (buf b) 0 (length_bb b) of None \<Rightarrow> Panics | Some d \<Rightarrow> Returns d)"

text \<open>
  \<open>applyWrite\<close> and \<open>applyRead\<close> return the offset before the call and whether the
  bytes fit, and move the cursor when they do.
\<close>

definition applyWrite :: "ByteBuffer \<Rightarrow> int \<Rightarrow> (int \<times> bool) \<times> ByteBuffer" where
  "applyWrite b sz =
     (if add_int (offset b) sz > cap b then ((offset b, False), b)
      else
        (let b1 = b\<lparr>offset := add_int (offset b) sz\<rparr>;
             b2 = (if offset b1 > length_bb b1 then b1\<lparr>length_bb := offset b1\<rparr> else b1)
         in ((offset b, True), b2)))"

definition applyRead :: "ByteBuffer \<Rightarrow> int \<Rightarrow> (int \<times> bool) \<times> ByteBuffer" where
  "applyRead b sz =
     (if add_int (offset b) sz > length_bb b then ((offset b, False), b)
      else ((offset b, True), b\<lparr>offset := add_int (offset b) sz\<rparr>))"


subsection \<open>Writing at the cursor\<close>

text \<open>
  \<open>store_at b off put\<close> is \<open>buf.order.PutUintN(buf.buf[offset:], v); return nil\<close>: the
  slice expression panics on an offset outside the storage, the byte order panics on a
  tail that is too short, and the bytes land in the storage the tail shares.
\<close>

definition store_at ::
  "ByteBuffer \<Rightarrow> int \<Rightarrow> (byte list \<Rightarrow> byte list option) \<Rightarrow> error option outcome \<times> ByteBuffer" where
  "store_at b off put =
     (case slice_from (buf b) off of
        None \<Rightarrow> (Panics, b)
      | Some dst \<Rightarrow>
          (case put dst of
             None \<Rightarrow> (Panics, b)
           | Some dst' \<Rightarrow> (Returns None, b\<lparr>buf := take (nat off) (buf b) @ dst'\<rparr>)))"

definition WriteInt8 :: "ByteBuffer \<Rightarrow> byte \<Rightarrow> error option outcome \<times> ByteBuffer" where
  "WriteInt8 b v =
     (case applyWrite b SIZEOF_1_BYTE of
        ((off, ok), b1) \<Rightarrow>
          if \<not> ok then (Returns (Some ErrorWriteOverflow), b1)
          else if in_range (buf b1) off
            then (Returns None, b1\<lparr>buf := (buf b1)[nat off := v]\<rparr>)
            else (Panics, b1))"

definition WriteBoolean :: "ByteBuffer \<Rightarrow> bool \<Rightarrow> error option outcome \<times> ByteBuffer" where
  "WriteBoolean b v = (if v then WriteInt8 b TRUE else WriteInt8 b FALSE)"

text \<open>\<open>copy\<close> moves as many bytes as both slices hold and returns their number.\<close>

definition WriteBytes ::
  "ByteBuffer \<Rightarrow> byte list \<Rightarrow> (int \<times> error option) outcome \<times> ByteBuffer" where
  "WriteBytes b v =
     (case applyWrite b (len v) of
        ((off, ok), b1) \<Rightarrow>
          if \<not> ok then (Returns (0, Some ErrorWriteOverflow), b1)
          else
            (case slice_from (buf b1) off of
               None \<Rightarrow> (Panics, b1)
             | Some dst \<Rightarrow>
                 (let n = min (length dst) (length v)
                  in (Returns (int n, None),
                      b1\<lparr>buf := take (nat off) (buf b1) @ take n v @ drop n dst\<rparr>))))"

definition WriteString ::
  "ByteBuffer \<Rightarrow> byte list \<Rightarrow> (int \<times> error option) outcome \<times> ByteBuffer" where
  "WriteString b v = WriteBytes b v"

definition WriteUInt16 :: "ByteBuffer \<Rightarrow> uint16 \<Rightarrow> error option outcome \<times> ByteBuffer" where
  "WriteUInt16 b v =
     (case applyWrite b SIZEOF_2_BYTE of
        ((off, ok), b1) \<Rightarrow>
          if \<not> ok then (Returns (Some ErrorWriteOverflow), b1)
          else store_at b1 off (PutUint16 (order b1) v))"

definition WriteInt16 :: "ByteBuffer \<Rightarrow> int \<Rightarrow> error option outcome \<times> ByteBuffer" where
  "WriteInt16 b v =
     (case applyWrite b SIZEOF_2_BYTE of
        ((off, ok), b1) \<Rightarrow>
          if \<not> ok then (Returns (Some ErrorWriteOverflow), b1)
          else store_at b1 off (PutUint16 (order b1) (word_of_int v)))"

definition WriteUInt32 :: "ByteBuffer \<Rightarrow> uint32 \<Rightarrow> error option outcome \<times> ByteBuffer" where
  "WriteUInt32 b v =
     (case applyWrite b SIZEOF_4_BYTE of
        ((off, ok), b1) \<Rightarrow>
          if \<not> ok then (Returns (Some ErrorWriteOverflow), b1)
          else store_at b1 off (PutUint32 (order b1) v))"

definition WriteInt32 :: "ByteBuffer \<Rightarrow> int \<Rightarrow> error option outcome \<times> ByteBuffer" where
  "WriteInt32 b v =
     (case applyWrite b SIZEOF_4_BYTE of
        ((off, ok), b1) \<Rightarrow>
          if \<not> ok then (Returns (Some ErrorWriteOverflow), b1)
          else store_at b1 off (PutUint32 (order b1) (word_of_int v)))"

definition WriteUInt64 :: "ByteBuffer \<Rightarrow> uint64 \<Rightarrow> error option outcome \<times> ByteBuffer" where
  "WriteUInt64 b v =
     (case applyWrite b SIZEOF_8_BYTE of
        ((off, ok), b1) \<Rightarrow>
          if \<not> ok then (Returns (Some ErrorWriteOverflow), b1)
          else store_at b1 off (PutUint64 (order b1) v))"

definition WriteInt64 :: "ByteBuffer \<Rightarrow> int \<Rightarrow> error option outcome \<times> ByteBuffer" where
  "WriteInt64 b v =
     (case applyWrite b SIZEOF_8_BYTE of
        ((off, ok), b1) \<Rightarrow>
          if \<not> ok then (Returns (Some ErrorWriteOverflow), b1)
          else store_at b1 off (PutUint64 (order b1) (word_of_int v)))"

definition WriteFloat32 :: "ByteBuffer \<Rightarrow> float32 \<Rightarrow> error option outcome \<times> ByteBuffer" where
  "WriteFloat32 b v =
     (case applyWrite b SIZEOF_4_BYTE of
        ((off, ok), b1) \<Rightarrow>
          if \<not> ok then (Returns (Some ErrorWriteOverflow), b1)
          else store_at b1 off (PutUint32 (order b1) (Float32bits v)))"

definition WriteFloat64 :: "ByteBuffer \<Rightarrow> float64 \<Rightarrow> error option outcome \<times> ByteBuffer" where
  "WriteFloat64 b v =
     (case applyWrite b SIZEOF_8_BYTE of
        ((off, ok), b1) \<Rightarrow>
          if \<not> ok then (Returns (Some ErrorWriteOverflow), b1)
          else store_at b1 off (PutUint64 (order b1) (Float64bits v)))"

subsection \<open>Reading at the cursor\<close>

text \<open>
  \<open>load_at b off get conv\<close> is \<open>value := buf.order.UintN(buf.buf[offset:]);
  return conv(value), nil\<close>.
\<close>

definition load_at ::
  "ByteBuffer \<Rightarrow> int \<Rightarrow> (byte list \<Rightarrow> 'w option) \<Rightarrow> ('w \<Rightarrow> 'a) \<Rightarrow>
     ('a \<times> error option) outcome \<times> ByteBuffer" where
  "load_at b off get conv =
     (case slice_from (buf b) off of
        None \<Rightarrow> (Panics, b)
      | Some src \<Rightarrow>
          (case get src of
             None \<Rightarrow> (Panics, b)
           | Some w \<Rightarrow> (Returns (conv w, None), b)))"

definition ReadInt8 :: "ByteBuffer \<Rightarrow> (byte \<times> error option) outcome \<times> ByteBuffer" where
  "ReadInt8 b =
     (case applyRead b SIZEOF_1_BYTE of
        ((off, ok), b1) \<Rightarrow>
          if \<not> ok then (Returns (0, Some ErrorReadOverflow), b1)
          else if in_range (buf b1) off then (Returns (buf b1 ! nat off, None), b1)
          else (Panics, b1))"

definition ReadBoolean :: "ByteBuffer \<Rightarrow> (bool \<times> error option) outcome \<times> ByteBuffer" where
  "ReadBoolean b =
     (case ReadInt8 b of
        (Panics, b1) \<Rightarrow> (Panics, b1)
      | (Returns (v, ok), b1) \<Rightarrow> (Returns (v = TRUE, ok), b1))"

text \<open>
  The loop of \<open>ReadString\<close> for a negative length: the index of the first zero byte from
  \<open>i\<close> on, or \<open>n\<close> when there is none before \<open>n\<close>. The index stays below \<open>n\<close>, so
  \<open>i++\<close> does not wrap.
\<close>

function scan_zero :: "byte list \<Rightarrow> int \<Rightarrow> int \<Rightarrow> int outcome" where
  "scan_zero s i n =
     (if i < n then
        (if \<not> in_range s i then Panics
         else if s ! nat i = 0 then Returns i
         else scan_zero s (i + 1) n)
      else Returns n)"
  by pat_completeness auto
termination
  by (relation "measure (\<lambda>(s, i, n). nat (n - i))") auto

declare scan_zero.simps [simp del]

definition ReadString ::
  "ByteBuffer \<Rightarrow> int \<Rightarrow> (byte list \<times> error option) outcome \<times> ByteBuffer" where
  "ReadString b n =
     (if n = 0 then (Returns ([], None), b)
      else if n \<le> 0 then
        (let startIndex = offset b
         in case scan_zero (buf b) (offset b) (length_bb b) of
              Panics \<Rightarrow> (Panics, b)
            | Returns endIndex \<Rightarrow>
                (let b1 = b\<lparr>offset := endIndex\<rparr>
                 in case slice_range (buf b1) startIndex endIndex of
                      None \<Rightarrow> (Panics, b1)
                    | Some s \<Rightarrow> (Returns (s, None), b1)))
      else if add_int (offset b) n > length_bb b then (Returns ([], Some ErrorReadOverflow), b)
      else
        (case applyRead b n of
           ((off, ok), b1) \<Rightarrow>
             if \<not> ok then (Returns ([], Some ErrorReadOverflow), b1)
             else
               (case slice_range (buf b1) off (add_int off n) of
                  None \<Rightarrow> (Panics, b1)
                | Some s \<Rightarrow> (Returns (s, None), b1))))"

text \<open>
  \<open>ReadBytes\<close> fills the caller's slice \<open>dst\<close>; the model returns the slice after the
  call beside the results.
\<close>

definition ReadBytes ::
  "ByteBuffer \<Rightarrow> byte list \<Rightarrow> int \<Rightarrow>
     ((int \<times> error option) \<times> byte list) outcome \<times> ByteBuffer" where
  "ReadBytes b dst n =
     (if n = 0 then (Returns ((0, None), dst), b)
      else if \<not> n < 0 \<and> n > len dst then (Returns ((0, Some ErrorReadOverflow), dst), b)
      else
        (let n' = (if n < 0 then len dst else n)
         in case applyRead b n' of
              ((off, ok), b1) \<Rightarrow>
                if \<not> ok then (Returns ((0, Some ErrorReadOverflow), dst), b1)
                else
                  (case slice_range (buf b1) off (add_int off n') of
                     None \<Rightarrow> (Panics, b1)
                   | Some src \<Rightarrow>
                       (let k = min (length dst) (length src)
                        in (Returns ((int k, None), take k src @ drop k dst), b1)))))"

definition ReadUInt16 :: "ByteBuffer \<Rightarrow> (uint16 \<times> error option) outcome \<times> ByteBuffer" where
  "ReadUInt16 b =
     (case applyRead b SIZEOF_2_BYTE of
        ((off, ok), b1) \<Rightarrow>
          if \<not> ok then (Returns (0, Some ErrorReadOverflow), b1)
          else load_at b1 off (Uint16 (order b1)) (\<lambda>w. w))"

definition ReadInt16 :: "ByteBuffer \<Rightarrow> (int \<times> error option) outcome \<times> ByteBuffer" where
  "ReadInt16 b =
     (case applyRead b SIZEOF_2_BYTE of
        ((off, ok), b1) \<Rightarrow>
          if \<not> ok then (Returns (0, Some ErrorReadOverflow), b1)
          else load_at b1 off (Uint16 (order b1)) sint)"

definition ReadUInt32 :: "ByteBuffer \<Rightarrow> (uint32 \<times> error option) outcome \<times> ByteBuffer" where
  "ReadUInt32 b =
     (case applyRead b SIZEOF_4_BYTE of
        ((off, ok), b1) \<Rightarrow>
          if \<not> ok then (Returns (0, Some ErrorReadOverflow), b1)
          else load_at b1 off (Uint32 (order b1)) (\<lambda>w. w))"

definition ReadInt32 :: "ByteBuffer \<Rightarrow> (int \<times> error option) outcome \<times> ByteBuffer" where
  "ReadInt32 b =
     (case applyRead b SIZEOF_4_BYTE of
        ((off, ok), b1) \<Rightarrow>
          if \<not> ok then (Returns (0, Some ErrorReadOverflow), b1)
          else load_at b1 off (Uint32 (order b1)) sint)"

definition ReadUInt64 :: "ByteBuffer \<Rightarrow> (uint64 \<times> error option) outcome \<times> ByteBuffer" where
  "ReadUInt64 b =
     (case applyRead b SIZEOF_8_BYTE of
        ((off, ok), b1) \<Rightarrow>
          if \<not> ok then (Returns (0, Some ErrorReadOverflow), b1)
          else load_at b1 off (Uint64 (order b1)) (\<lambda>w. w))"

definition ReadInt64 :: "ByteBuffer \<Rightarrow> (int \<times> error option) outcome \<times> ByteBuffer" where
  "ReadInt64 b =
     (case applyRead b SIZEOF_8_BYTE of
        ((off, ok), b1) \<Rightarrow>
          if \<not> ok then (Returns (0, Some ErrorReadOverflow), b1)
          else load_at b1 off (Uint64 (order b1)) sint)"

definition ReadFloat32 :: "ByteBuffer \<Rightarrow> (float32 \<times> error option) outcome \<times> ByteBuffer" where
  "ReadFloat32 b =
     (case applyRead b SIZEOF_4_BYTE of
        ((off, ok), b1) \<Rightarrow>
          if \<not> ok then (Returns (Float32frombits 0, Some ErrorReadOverflow), b1)
          else load_at b1 off (Uint32 (order b1)) Float32frombits)"

definition ReadFloat64 :: "ByteBuffer \<Rightarrow> (float64 \<times> error option) outcome \<times> ByteBuffer" where
  "ReadFloat64 b =
     (case applyRead b SIZEOF_8_BYTE of
        ((off, ok), b1) \<Rightarrow>
          if \<not> ok then (Returns (Float64frombits 0, Some ErrorReadOverflow), b1)
          else load_at b1 off (Uint64 (order b1)) Float64frombits)"

subsection \<open>Writing and reading at a given offset\<close>

definition PutUInt16 :: "ByteBuffer \<Rightarrow> int \<Rightarrow> uint16 \<Rightarrow> error option outcome \<times> ByteBuffer" where
  "PutUInt16 b off v =
     (if off < 0 \<or> add_int off SIZEOF_2_BYTE > length_bb b
      then (Returns (Some ErrorPositionOverflow), b)
      else store_at b off (PutUint16 (order b) v))"

definition PutUInt32 :: "ByteBuffer \<Rightarrow> int \<Rightarrow> uint32 \<Rightarrow> error option outcome \<times> ByteBuffer" where
  "PutUInt32 b off v =
     (if off < 0 \<or> add_int off SIZEOF_4_BYTE > length_bb b
      then (Returns (Some ErrorPositionOverflow), b)
      else store_at b off (PutUint32 (order b) v))"

definition PutUInt64 :: "ByteBuffer \<Rightarrow> int \<Rightarrow> uint64 \<Rightarrow> error option outcome \<times> ByteBuffer" where
  "PutUInt64 b off v =
     (if off < 0 \<or> add_int off SIZEOF_8_BYTE > length_bb b
      then (Returns (Some ErrorPositionOverflow), b)
      else store_at b off (PutUint64 (order b) v))"

definition GetUInt16 :: "ByteBuffer \<Rightarrow> int \<Rightarrow> (uint16 \<times> error option) outcome \<times> ByteBuffer" where
  "GetUInt16 b off =
     (if off < 0 \<or> add_int off SIZEOF_2_BYTE > length_bb b
      then (Returns (0, Some ErrorPositionOverflow), b)
      else load_at b off (Uint16 (order b)) (\<lambda>w. w))"

definition GetUInt32 :: "ByteBuffer \<Rightarrow> int \<Rightarrow> (uint32 \<times> error option) outcome \<times> ByteBuffer" where
  "GetUInt32 b off =
     (if off < 0 \<or> add_int off SIZEOF_4_BYTE > length_bb b
      then (Returns (0, Some ErrorPositionOverflow), b)
      else load_at b off (Uint32 (order b)) (\<lambda>w. w))"

definition GetUInt64 :: "ByteBuffer \<Rightarrow> int \<Rightarrow> (uint64 \<times> error option) outcome \<times> ByteBuffer" where
  "GetUInt64 b off =
     (if off < 0 \<or> add_int off SIZEOF_8_BYTE > length_bb b
      then (Returns (0, Some ErrorPositionOverflow), b)
      else load_at b off (Uint64 (order b)) (\<lambda>w. w))"


section \<open>States and calls\<close>

text \<open>
  The invariant of the bookkeeping, and the well-formed states: those that satisfy it and
  whose storage is the slice \<open>NewByteBuffer\<close> made, of length \<open>cap\<close>. The fields
  are not exported, so a program has the states that \<open>NewByteBuffer\<close> and the calls of
  the interface leave.
\<close>

definition invariant :: "ByteBuffer \<Rightarrow> bool" where
  "invariant b \<longleftrightarrow> 0 \<le> offset b \<and> offset b \<le> length_bb b \<and> length_bb b \<le> cap b"

definition well_formed :: "ByteBuffer \<Rightarrow> bool" where
  "well_formed b \<longleftrightarrow> invariant b \<and> cap b = len (buf b) \<and> cap b \<le> max_len"

text \<open>
  What a write of \<open>n\<close> bytes that succeeds does to the bookkeeping: the cursor moves by
  \<open>n\<close>, the valid length follows the cursor when the cursor passes it, and the capacity,
  the size of the storage and the byte order stay.
\<close>

definition grows_to :: "ByteBuffer \<Rightarrow> int \<Rightarrow> ByteBuffer \<Rightarrow> bool" where
  "grows_to b n b' \<longleftrightarrow>
     offset b' = offset b + n \<and> length_bb b' = max (length_bb b) (offset b + n) \<and>
     cap b' = cap b \<and> length (buf b') = length (buf b) \<and> order b' = order b"

text \<open>The valid bytes from the cursor on: \<open>buf.buf[buf.offset:buf.length]\<close>.\<close>

definition unread :: "ByteBuffer \<Rightarrow> byte list" where
  "unread b = take (nat (length_bb b - offset b)) (drop (nat (offset b)) (buf b))"

text \<open>
  A write of \<open>v\<close>, the cursor set back to where it was before the write, and a read:
  the value read when all three calls return without an error.
\<close>

definition write_then_read ::
  "(ByteBuffer \<Rightarrow> 'a \<Rightarrow> error option outcome \<times> ByteBuffer) \<Rightarrow>
   (ByteBuffer \<Rightarrow> ('a \<times> error option) outcome \<times> ByteBuffer) \<Rightarrow> ByteBuffer \<Rightarrow> 'a \<Rightarrow> 'a option" where
  "write_then_read W R b v =
     (case W b v of
        (Returns None, b1) \<Rightarrow>
          (case SetPosition b1 (Position b) of
             (None, b2) \<Rightarrow>
               (case R b2 of
                  (Returns (v', None), b3) \<Rightarrow> Some v'
                | _ \<Rightarrow> None)
           | _ \<Rightarrow> None)
      | _ \<Rightarrow> None)"

text \<open>
  The calls of the public interface. \<open>exec\<close> runs one on a state and keeps how it ended
  and the state it left; a call that panics leaves the state as it was when it panicked.
\<close>

datatype call =
    CLength | CCap | CPosition | CSetPosition int | CReset | CSetOrder ByteOrder
  | CBuffer | CData
  | CWriteInt8 byte | CWriteBoolean bool | CWriteString "byte list" | CWriteBytes "byte list"
  | CWriteInt16 int | CWriteUInt16 uint16 | CWriteInt32 int | CWriteUInt32 uint32
  | CWriteInt64 int | CWriteUInt64 uint64 | CWriteFloat32 float32 | CWriteFloat64 float64
  | CReadInt8 | CReadBoolean | CReadString int | CReadBytes "byte list" int
  | CReadInt16 | CReadUInt16 | CReadInt32 | CReadUInt32 | CReadInt64 | CReadUInt64
  | CReadFloat32 | CReadFloat64
  | CPutUInt16 int uint16 | CPutUInt32 int uint32 | CPutUInt64 int uint64
  | CGetUInt16 int | CGetUInt32 int | CGetUInt64 int

datatype status = Succeeded | Failed error | Panicked

fun status_err :: "error option outcome \<Rightarrow> status" where
  "status_err Panics = Panicked"
| "status_err (Returns None) = Succeeded"
| "status_err (Returns (Some e)) = Failed e"

fun status_val :: "('a \<times> error option) outcome \<Rightarrow> status" where
  "status_val Panics = Panicked"
| "status_val (Returns (v, None)) = Succeeded"
| "status_val (Returns (v, Some e)) = Failed e"

fun status_dst :: "(('a \<times> error option) \<times> 'b) outcome \<Rightarrow> status" where
  "status_dst Panics = Panicked"
| "status_dst (Returns ((v, None), d)) = Succeeded"
| "status_dst (Returns ((v, Some e), d)) = Failed e"

fun exec :: "ByteBuffer \<Rightarrow> call \<Rightarrow> status \<times> ByteBuffer" where
  "exec b CLength = (Succeeded, b)"
| "exec b CCap = (Succeeded, b)"
| "exec b CPosition = (Succeeded, b)"
| "exec b (CSetPosition p) = apfst (\<lambda>e. status_err (Returns e)) (SetPosition b p)"
| "exec b CReset = (Succeeded, Reset b)"
| "exec b (CSetOrder ord) = (Succeeded, SetOrder b ord)"
| "exec b CBuffer = (Succeeded, b)"
| "exec b CData = (case Data b of Panics \<Rightarrow> (Panicked, b) | Returns d \<Rightarrow> (Succeeded, b))"
| "exec b (CWriteInt8 v) = apfst status_err (WriteInt8 b v)"
| "exec b (CWriteBoolean v) = apfst status_err (WriteBoolean b v)"
| "exec b (CWriteString v) = apfst status_val (WriteString b v)"
| "exec b (CWriteBytes v) = apfst status_val (WriteBytes b v)"
| "exec b (CWriteInt16 v) = apfst status_err (WriteInt16 b v)"
| "exec b (CWriteUInt16 v) = apfst status_err (WriteUInt16 b v)"
| "exec b (CWriteInt32 v) = apfst status_err (WriteInt32 b v)"
| "exec b (CWriteUInt32 v) = apfst status_err (WriteUInt32 b v)"
| "exec b (CWriteInt64 v) = apfst status_err (WriteInt64 b v)"
| "exec b (CWriteUInt64 v) = apfst status_err (WriteUInt64 b v)"
| "exec b (CWriteFloat32 v) = apfst status_err (WriteFloat32 b v)"
| "exec b (CWriteFloat64 v) = apfst status_err (WriteFloat64 b v)"
| "exec b CReadInt8 = apfst status_val (ReadInt8 b)"
| "exec b CReadBoolean = apfst status_val (ReadBoolean b)"
| "exec b (CReadString n) = apfst status_val (ReadString b n)"
| "exec b (CReadBytes dst n) = apfst status_dst (ReadBytes b dst n)"
| "exec b CReadInt16 = apfst status_val (ReadInt16 b)"
| "exec b CReadUInt16 = apfst status_val (ReadUInt16 b)"
| "exec b CReadInt32 = apfst status_val (ReadInt32 b)"
| "exec b CReadUInt32 = apfst status_val (ReadUInt32 b)"
| "exec b CReadInt64 = apfst status_val (ReadInt64 b)"
| "exec b CReadUInt64 = apfst status_val (ReadUInt64 b)"
| "exec b CReadFloat32 = apfst status_val (ReadFloat32 b)"
| "exec b CReadFloat64 = apfst status_val (ReadFloat64 b)"
| "exec b (CPutUInt16 off v) = apfst status_err (PutUInt16 b off v)"
| "exec b (CPutUInt32 off v) = apfst status_err (PutUInt32 b off v)"
| "exec b (CPutUInt64 off v) = apfst status_err (PutUInt64 b off v)"
| "exec b (CGetUInt16 off) = apfst status_val (GetUInt16 b off)"
| "exec b (CGetUInt32 off) = apfst status_val (GetUInt32 b off)"
| "exec b (CGetUInt64 off) = apfst status_val (GetUInt64 b off)"

fun exec_all :: "ByteBuffer \<Rightarrow> call list \<Rightarrow> status list \<times> ByteBuffer" where
  "exec_all b [] = ([], b)"
| "exec_all b (c # cs) =
     (case exec b c of
        (s, b1) \<Rightarrow> (case exec_all b1 cs of (ss, b2) \<Rightarrow> (s # ss, b2)))"

text \<open>
  The arguments of a call are values of their Go types: an \<open>int\<close> is in the 64-bit
  range, a signed value in the range of its type, and a slice or string is one a program
  can hold.
\<close>

fun valid_call :: "call \<Rightarrow> bool" where
  "valid_call (CSetPosition p) = is_int p"
| "valid_call (CWriteString v) = (len v \<le> max_len)"
| "valid_call (CWriteBytes v) = (len v \<le> max_len)"
| "valid_call (CWriteInt16 v) = is_int16 v"
| "valid_call (CWriteInt32 v) = is_int32 v"
| "valid_call (CWriteInt64 v) = is_int64 v"
| "valid_call (CReadString n) = is_int n"
| "valid_call (CReadBytes dst n) = (len dst \<le> max_len \<and> is_int n)"
| "valid_call (CPutUInt16 off v) = is_int off"
| "valid_call (CPutUInt32 off v) = is_int off"
| "valid_call (CPutUInt64 off v) = is_int off"
| "valid_call (CGetUInt16 off) = is_int off"
| "valid_call (CGetUInt32 off) = is_int off"
| "valid_call (CGetUInt64 off) = is_int off"
| "valid_call c = True"

text \<open>The number of bytes a write call asks for; \<open>None\<close> for the other calls.\<close>

fun write_size :: "call \<Rightarrow> int option" where
  "write_size (CWriteInt8 v) = Some SIZEOF_1_BYTE"
| "write_size (CWriteBoolean v) = Some SIZEOF_1_BYTE"
| "write_size (CWriteString v) = Some (len v)"
| "write_size (CWriteBytes v) = Some (len v)"
| "write_size (CWriteInt16 v) = Some SIZEOF_2_BYTE"
| "write_size (CWriteUInt16 v) = Some SIZEOF_2_BYTE"
| "write_size (CWriteInt32 v) = Some SIZEOF_4_BYTE"
| "write_size (CWriteUInt32 v) = Some SIZEOF_4_BYTE"
| "write_size (CWriteInt64 v) = Some SIZEOF_8_BYTE"
| "write_size (CWriteUInt64 v) = Some SIZEOF_8_BYTE"
| "write_size (CWriteFloat32 v) = Some SIZEOF_4_BYTE"
| "write_size (CWriteFloat64 v) = Some SIZEOF_8_BYTE"
| "write_size c = None"


section \<open>Example states\<close>

text \<open>
  A buffer of capacity 4 after \<open>WriteBytes([]byte{0x41, 0x42, 0x00, 0x43})\<close> and
  \<open>SetPosition(0)\<close>, and the same buffer with the cursor on the zero byte and on the
  last byte.
\<close>

definition written_AB0C :: ByteBuffer where
  "written_AB0C =
     \<lparr>cap = 4, buf = [0x41, 0x42, 0x00, 0x43], length_bb = 4, offset = 0,
      order = LittleEndian\<rparr>"

definition at_terminator :: ByteBuffer where
  "at_terminator = written_AB0C\<lparr>offset := 2\<rparr>"

definition at_last_byte :: ByteBuffer where
  "at_last_byte = written_AB0C\<lparr>offset := 3\<rparr>"

text \<open>A buffer of capacity 4 that holds the bytes 1, 2, 255 and 0, with the cursor at \<open>i\<close>.\<close>

definition flags_at :: "int \<Rightarrow> ByteBuffer" where
  "flags_at i =
     \<lparr>cap = 4, buf = [1, 2, 255, 0], length_bb = 4, offset = i, order = BigEndian\<rparr>"

text \<open>A buffer of capacity 8 after \<open>WriteInt8(0x41)\<close>.\<close>

definition one_written :: ByteBuffer where
  "one_written =
     \<lparr>cap = 8, buf = [0x41, 0, 0, 0, 0, 0, 0, 0], length_bb = 1, offset = 1,
      order = LittleEndian\<rparr>"

section \<open>Arithmetic and byte orders\<close>

lemma add_int_id: "- (2 ^ 63) \<le> a + b \<Longrightarrow> a + b < 2 ^ 63 \<Longrightarrow> add_int a b = a + b"
  unfolding add_int_def by (rule signed_take_bit_int_eq_self)

lemma add_int_small:
  "0 \<le> a \<Longrightarrow> a \<le> max_len \<Longrightarrow> 0 \<le> b \<Longrightarrow> b \<le> max_len \<Longrightarrow> add_int a b = a + b"
  by (rule add_int_id) (simp_all add: max_len_def)

lemma split8: "ucast (ucast w :: byte) OR push_bit 8 (drop_bit 8 w) = (w::'a::len word)"
proof (rule bit_word_eqI)
  fix n
  assume n: "n < LENGTH('a)"
  show "bit (ucast (ucast w :: byte) OR push_bit 8 (drop_bit 8 w)) n = bit w n"
  proof (cases "n < 8")
    case True
    with n show ?thesis by (simp add: bit_simps)
  next
    case False
    then have "8 + (n - 8) = n" by simp
    with False n show ?thesis by (simp add: bit_simps)
  qed
qed

lemma split8_drop:
  "drop_bit k w = ucast (ucast (drop_bit k w) :: byte) OR push_bit 8 (drop_bit (k + 8) w)"
  for w :: "'a::len word"
  using split8 [of "drop_bit k w"] by (simp add: add.commute)

lemma last8_16: "ucast (ucast (drop_bit 8 w) :: byte) = drop_bit 8 (w :: uint16)"
  by (rule bit_word_eqI) (auto simp: bit_simps dest: bit_imp_le_length)

lemma last8_32: "ucast (ucast (drop_bit 24 w) :: byte) = drop_bit 24 (w :: uint32)"
  by (rule bit_word_eqI) (auto simp: bit_simps dest: bit_imp_le_length)

lemma last8_64: "ucast (ucast (drop_bit 56 w) :: byte) = drop_bit 56 (w :: uint64)"
  by (rule bit_word_eqI) (auto simp: bit_simps dest: bit_imp_le_length)

lemma join16:
  "ucast (ucast v :: byte) OR push_bit 8 (ucast (ucast (drop_bit 8 v) :: byte)) = (v :: uint16)"
  by (simp add: last8_16 split8)

lemma join32:
  "ucast (ucast v :: byte) OR push_bit 8 (ucast (ucast (drop_bit 8 v) :: byte))
     OR push_bit 16 (ucast (ucast (drop_bit 16 v) :: byte))
     OR push_bit 24 (ucast (ucast (drop_bit 24 v) :: byte)) = (v :: uint32)"
proof -
  have "v = ucast (ucast v :: byte) OR push_bit 8 (drop_bit 8 v)"
    by (simp add: split8)
  also have "drop_bit 8 v = ucast (ucast (drop_bit 8 v) :: byte) OR push_bit 8 (drop_bit 16 v)"
    using split8_drop [of 8 v] by simp
  also have "drop_bit 16 v = ucast (ucast (drop_bit 16 v) :: byte) OR push_bit 8 (drop_bit 24 v)"
    using split8_drop [of 16 v] by simp
  finally show ?thesis
    by (simp add: last8_32 push_bit_or or.assoc)
qed

lemma join64:
  "ucast (ucast v :: byte) OR push_bit 8 (ucast (ucast (drop_bit 8 v) :: byte))
     OR push_bit 16 (ucast (ucast (drop_bit 16 v) :: byte))
     OR push_bit 24 (ucast (ucast (drop_bit 24 v) :: byte))
     OR push_bit 32 (ucast (ucast (drop_bit 32 v) :: byte))
     OR push_bit 40 (ucast (ucast (drop_bit 40 v) :: byte))
     OR push_bit 48 (ucast (ucast (drop_bit 48 v) :: byte))
     OR push_bit 56 (ucast (ucast (drop_bit 56 v) :: byte)) = (v :: uint64)"
proof -
  have "v = ucast (ucast v :: byte) OR push_bit 8 (drop_bit 8 v)"
    by (simp add: split8)
  also have "drop_bit 8 v = ucast (ucast (drop_bit 8 v) :: byte) OR push_bit 8 (drop_bit 16 v)"
    using split8_drop [of 8 v] by simp
  also have "drop_bit 16 v = ucast (ucast (drop_bit 16 v) :: byte) OR push_bit 8 (drop_bit 24 v)"
    using split8_drop [of 16 v] by simp
  also have "drop_bit 24 v = ucast (ucast (drop_bit 24 v) :: byte) OR push_bit 8 (drop_bit 32 v)"
    using split8_drop [of 24 v] by simp
  also have "drop_bit 32 v = ucast (ucast (drop_bit 32 v) :: byte) OR push_bit 8 (drop_bit 40 v)"
    using split8_drop [of 32 v] by simp
  also have "drop_bit 40 v = ucast (ucast (drop_bit 40 v) :: byte) OR push_bit 8 (drop_bit 48 v)"
    using split8_drop [of 40 v] by simp
  also have "drop_bit 48 v = ucast (ucast (drop_bit 48 v) :: byte) OR push_bit 8 (drop_bit 56 v)"
    using split8_drop [of 48 v] by simp
  finally show ?thesis
    by (simp add: last8_64 push_bit_or or.assoc)
qed

lemma get_put16:
  assumes "2 \<le> length s"
  shows "\<exists>s'. PutUint16 ord v s = Some s' \<and> length s' = length s \<and> Uint16 ord s' = Some v"
proof -
  from assms have "s \<noteq> []" by auto
  with assms show ?thesis
    by (cases ord) (simp_all add: nth_list_update join16 or.commute)
qed

lemma get_put32:
  assumes "4 \<le> length s"
  shows "\<exists>s'. PutUint32 ord v s = Some s' \<and> length s' = length s \<and> Uint32 ord s' = Some v"
proof -
  from assms have "s \<noteq> []" by auto
  with assms show ?thesis
    by (cases ord) (simp_all add: nth_list_update join32)
qed

lemma get_put64:
  assumes "8 \<le> length s"
  shows "\<exists>s'. PutUint64 ord v s = Some s' \<and> length s' = length s \<and> Uint64 ord s' = Some v"
proof -
  from assms have "s \<noteq> []" by auto
  with assms show ?thesis
    by (cases ord) (simp_all add: nth_list_update join64)
qed

lemma applyWrite_fits:
  assumes "well_formed b" "0 \<le> sz" "offset b + sz \<le> cap b"
  shows "applyWrite b sz =
     ((offset b, True), b\<lparr>offset := offset b + sz, length_bb := max (length_bb b) (offset b + sz)\<rparr>)"
proof -
  have "add_int (offset b) sz = offset b + sz"
    using assms by (intro add_int_small) (auto simp: well_formed_def invariant_def)
  then show ?thesis
    using assms by (simp add: applyWrite_def Let_def max_def well_formed_def invariant_def)
qed

lemma applyRead_fits:
  assumes "well_formed b" "0 \<le> sz" "offset b + sz \<le> length_bb b"
  shows "applyRead b sz = ((offset b, True), b\<lparr>offset := offset b + sz\<rparr>)"
proof -
  have "add_int (offset b) sz = offset b + sz"
    using assms by (intro add_int_small) (auto simp: well_formed_def invariant_def)
  then show ?thesis
    using assms by (simp add: applyRead_def)
qed

lemma sint_word_of_int16: "is_int16 v \<Longrightarrow> sint (word_of_int v :: uint16) = v"
  by (simp add: is_int16_def sint_sbintrunc' signed_take_bit_int_eq_self)

lemma sint_word_of_int32: "is_int32 v \<Longrightarrow> sint (word_of_int v :: uint32) = v"
  by (simp add: is_int32_def sint_sbintrunc' signed_take_bit_int_eq_self)

lemma sint_word_of_int64: "is_int64 v \<Longrightarrow> sint (word_of_int v :: uint64) = v"
  by (simp add: is_int64_def sint_sbintrunc' signed_take_bit_int_eq_self)


section \<open>Write, reposition, read\<close>

lemma wtr_generic:
  fixes W :: "ByteBuffer \<Rightarrow> 'a \<Rightarrow> error option outcome \<times> ByteBuffer"
  assumes well_formed: "well_formed b" and fits: "offset b + int k \<le> cap b"
    and W: "\<And>b. W b v = (case applyWrite b (int k) of ((off, ok), b1) \<Rightarrow>
               if \<not> ok then (Returns (Some ErrorWriteOverflow), b1)
               else store_at b1 off (put (order b1)))"
    and R: "\<And>b. R b = (case applyRead b (int k) of ((off, ok), b1) \<Rightarrow>
               if \<not> ok then (Returns (z, Some ErrorReadOverflow), b1)
               else load_at b1 off (get (order b1)) conv)"
    and PG: "\<And>ord s. k \<le> length s \<Longrightarrow>
               \<exists>s'. put ord s = Some s' \<and> length s' = length s \<and> get ord s' = Some w"
    and conv: "conv w = v"
  shows "write_then_read W R b v = Some v"
proof -
  let ?o = "offset b"
  let ?b1 = "b\<lparr>offset := ?o + int k, length_bb := max (length_bb b) (?o + int k)\<rparr>"
  from well_formed fits have o: "0 \<le> ?o" "nat ?o + k \<le> length (buf b)"
    by (auto simp: well_formed_def invariant_def len_def)
  then have "k \<le> length (drop (nat ?o) (buf b))" by simp
  from PG [OF this, of "order b"] obtain s' where
    s': "put (order b) (drop (nat ?o) (buf b)) = Some s'" "length s' = length (buf b) - nat ?o"
      "get (order b) s' = Some w"
    by auto
  let ?b2 = "?b1\<lparr>buf := take (nat ?o) (buf b) @ s'\<rparr>"
  have w: "W b v = (Returns None, ?b2)"
    using o s' by (simp add: W applyWrite_fits [OF well_formed _ fits] store_at_def slice_from_def len_def)
  let ?b3 = "?b2\<lparr>offset := ?o\<rparr>"
  have sp: "SetPosition ?b2 (Position b) = (None, ?b3)"
    using o by (simp add: SetPosition_def Position_def)
  have wf3: "well_formed ?b3"
    using well_formed fits o s' by (auto simp: well_formed_def invariant_def len_def)
  have ar: "applyRead ?b3 (int k) = ((?o, True), ?b3\<lparr>offset := ?o + int k\<rparr>)"
    using applyRead_fits [OF wf3, of "int k"] by simp
  have r: "R ?b3 = (Returns (v, None), ?b3\<lparr>offset := ?o + int k\<rparr>)"
    using o s' conv ar
    by (simp add: R load_at_def slice_from_def len_def)
  show ?thesis
    using w sp r by (simp add: write_then_read_def)
qed


lemma WriteInt8_fits:
  assumes well_formed: "well_formed b" and fits: "offset b + 1 \<le> cap b"
  shows "WriteInt8 b v =
     (Returns None,
      b\<lparr>offset := offset b + 1, length_bb := max (length_bb b) (offset b + 1),
        buf := (buf b)[nat (offset b) := v]\<rparr>)"
proof -
  from well_formed fits have "0 \<le> offset b" "nat (offset b) < length (buf b)"
    by (auto simp: well_formed_def invariant_def len_def)
  then show ?thesis
    using applyWrite_fits [OF well_formed _ fits]
    by (simp add: WriteInt8_def SIZEOF_1_BYTE_def in_range_def len_def)
qed

lemma ReadInt8_avail:
  assumes well_formed: "well_formed b" and avail: "offset b + 1 \<le> length_bb b"
  shows "ReadInt8 b = (Returns (buf b ! nat (offset b), None), b\<lparr>offset := offset b + 1\<rparr>)"
proof -
  from well_formed avail have "0 \<le> offset b" "nat (offset b) < length (buf b)"
    by (auto simp: well_formed_def invariant_def len_def)
  then show ?thesis
    using applyRead_fits [OF well_formed _ avail]
    by (simp add: ReadInt8_def SIZEOF_1_BYTE_def in_range_def len_def)
qed

lemma wf_after_WriteInt8:
  assumes well_formed: "well_formed b" and fits: "offset b + 1 \<le> cap b"
  shows "well_formed (b\<lparr>length_bb := max (length_bb b) (offset b + 1),
        buf := (buf b)[nat (offset b) := v]\<rparr>)"
  using assms by (auto simp: well_formed_def invariant_def len_def)

lemma rt_int8:
  assumes well_formed: "well_formed b" and fits: "offset b + 1 \<le> cap b"
  shows "write_then_read WriteInt8 ReadInt8 b v = Some v"
proof -
  from well_formed fits have o: "0 \<le> offset b" "nat (offset b) < length (buf b)"
    by (auto simp: well_formed_def invariant_def len_def)
  show ?thesis
    using o ReadInt8_avail [OF wf_after_WriteInt8 [OF well_formed fits, of v]]
    by (simp add: write_then_read_def WriteInt8_fits [OF well_formed fits] SetPosition_def Position_def)
qed

lemma rt_bool:
  assumes well_formed: "well_formed b" and fits: "offset b + 1 \<le> cap b"
  shows "write_then_read WriteBoolean ReadBoolean b v = Some v"
proof -
  from well_formed fits have o: "0 \<le> offset b" "nat (offset b) < length (buf b)"
    by (auto simp: well_formed_def invariant_def len_def)
  show ?thesis
    using o ReadInt8_avail [OF wf_after_WriteInt8 [OF well_formed fits, of TRUE]]
      ReadInt8_avail [OF wf_after_WriteInt8 [OF well_formed fits, of FALSE]]
    by (simp add: write_then_read_def WriteBoolean_def ReadBoolean_def WriteInt8_fits [OF well_formed fits]
        SetPosition_def Position_def TRUE_def FALSE_def)
qed

lemma rt_uint16:
  assumes "well_formed b" and "offset b + 2 \<le> cap b"
  shows "write_then_read WriteUInt16 ReadUInt16 b v = Some v"
  using assms
  by (intro wtr_generic [where k = 2 and put = "\<lambda>ord. PutUint16 ord (v)" and get = Uint16
        and w = "v" and conv = "\<lambda>w. w" and z = "0"])
     (simp_all add: WriteUInt16_def ReadUInt16_def SIZEOF_2_BYTE_def get_put16)

lemma rt_int16:
  assumes "well_formed b" and "offset b + 2 \<le> cap b" and "is_int16 v"
  shows "write_then_read WriteInt16 ReadInt16 b v = Some v"
  using assms
  by (intro wtr_generic [where k = 2 and put = "\<lambda>ord. PutUint16 ord (word_of_int v)" and get = Uint16
        and w = "word_of_int v" and conv = "sint" and z = "0"])
     (simp_all add: WriteInt16_def ReadInt16_def SIZEOF_2_BYTE_def get_put16 sint_word_of_int16)

lemma rt_uint32:
  assumes "well_formed b" and "offset b + 4 \<le> cap b"
  shows "write_then_read WriteUInt32 ReadUInt32 b v = Some v"
  using assms
  by (intro wtr_generic [where k = 4 and put = "\<lambda>ord. PutUint32 ord (v)" and get = Uint32
        and w = "v" and conv = "\<lambda>w. w" and z = "0"])
     (simp_all add: WriteUInt32_def ReadUInt32_def SIZEOF_4_BYTE_def get_put32)

lemma rt_int32:
  assumes "well_formed b" and "offset b + 4 \<le> cap b" and "is_int32 v"
  shows "write_then_read WriteInt32 ReadInt32 b v = Some v"
  using assms
  by (intro wtr_generic [where k = 4 and put = "\<lambda>ord. PutUint32 ord (word_of_int v)" and get = Uint32
        and w = "word_of_int v" and conv = "sint" and z = "0"])
     (simp_all add: WriteInt32_def ReadInt32_def SIZEOF_4_BYTE_def get_put32 sint_word_of_int32)

lemma rt_uint64:
  assumes "well_formed b" and "offset b + 8 \<le> cap b"
  shows "write_then_read WriteUInt64 ReadUInt64 b v = Some v"
  using assms
  by (intro wtr_generic [where k = 8 and put = "\<lambda>ord. PutUint64 ord (v)" and get = Uint64
        and w = "v" and conv = "\<lambda>w. w" and z = "0"])
     (simp_all add: WriteUInt64_def ReadUInt64_def SIZEOF_8_BYTE_def get_put64)

lemma rt_int64:
  assumes "well_formed b" and "offset b + 8 \<le> cap b" and "is_int64 v"
  shows "write_then_read WriteInt64 ReadInt64 b v = Some v"
  using assms
  by (intro wtr_generic [where k = 8 and put = "\<lambda>ord. PutUint64 ord (word_of_int v)" and get = Uint64
        and w = "word_of_int v" and conv = "sint" and z = "0"])
     (simp_all add: WriteInt64_def ReadInt64_def SIZEOF_8_BYTE_def get_put64 sint_word_of_int64)

lemma rt_float32:
  assumes "well_formed b" and "offset b + 4 \<le> cap b"
  shows "write_then_read WriteFloat32 ReadFloat32 b v = Some v"
  using assms
  by (intro wtr_generic [where k = 4 and put = "\<lambda>ord. PutUint32 ord (Float32bits v)" and get = Uint32
        and w = "Float32bits v" and conv = "Float32frombits" and z = "Float32frombits 0"])
     (simp_all add: WriteFloat32_def ReadFloat32_def SIZEOF_4_BYTE_def get_put32)

lemma rt_float64:
  assumes "well_formed b" and "offset b + 8 \<le> cap b"
  shows "write_then_read WriteFloat64 ReadFloat64 b v = Some v"
  using assms
  by (intro wtr_generic [where k = 8 and put = "\<lambda>ord. PutUint64 ord (Float64bits v)" and get = Uint64
        and w = "Float64bits v" and conv = "Float64frombits" and z = "Float64frombits 0"])
     (simp_all add: WriteFloat64_def ReadFloat64_def SIZEOF_8_BYTE_def get_put64)


lemma wf_SetOrder: "well_formed (SetOrder b ord) = well_formed b"
  by (simp add: SetOrder_def well_formed_def invariant_def)

lemma fields_SetOrder:
  "offset (SetOrder b ord) = offset b" "cap (SetOrder b ord) = cap b"
  "length_bb (SetOrder b ord) = length_bb b" "buf (SetOrder b ord) = buf b"
  "order (SetOrder b ord) = ord"
  by (simp_all add: SetOrder_def)

text \<open>
  Claim C1. On a well-formed state with room for the value, under either byte order, the
  write of a value of a primitive type, \<open>SetPosition\<close> back to the cursor the write
  started at, and the read of that type return without an error, and the read returns the
  value written: a byte, a boolean, every signed and unsigned integer of 16, 32 and 64
  bits, and every bit pattern of a float.
\<close>

theorem round_trip:
  assumes "well_formed b"
  shows "(offset b + SIZEOF_1_BYTE \<le> cap b \<longrightarrow>
            write_then_read WriteInt8 ReadInt8 (SetOrder b ord) n8 = Some n8 \<and>
            write_then_read WriteBoolean ReadBoolean (SetOrder b ord) t = Some t) \<and>
         (offset b + SIZEOF_2_BYTE \<le> cap b \<longrightarrow>
            (is_int16 i16 \<longrightarrow>
               write_then_read WriteInt16 ReadInt16 (SetOrder b ord) i16 = Some i16) \<and>
            write_then_read WriteUInt16 ReadUInt16 (SetOrder b ord) u16 = Some u16) \<and>
         (offset b + SIZEOF_4_BYTE \<le> cap b \<longrightarrow>
            (is_int32 i32 \<longrightarrow>
               write_then_read WriteInt32 ReadInt32 (SetOrder b ord) i32 = Some i32) \<and>
            write_then_read WriteUInt32 ReadUInt32 (SetOrder b ord) u32 = Some u32 \<and>
            write_then_read WriteFloat32 ReadFloat32 (SetOrder b ord) f32 = Some f32) \<and>
         (offset b + SIZEOF_8_BYTE \<le> cap b \<longrightarrow>
            (is_int64 i64 \<longrightarrow>
               write_then_read WriteInt64 ReadInt64 (SetOrder b ord) i64 = Some i64) \<and>
            write_then_read WriteUInt64 ReadUInt64 (SetOrder b ord) u64 = Some u64 \<and>
            write_then_read WriteFloat64 ReadFloat64 (SetOrder b ord) f64 = Some f64)"
proof -
  have well_formed_order: "well_formed (SetOrder b ord)"
    using assms by (simp add: wf_SetOrder)
  have 1: "offset b + 1 \<le> cap b \<Longrightarrow> offset (SetOrder b ord) + 1 \<le> cap (SetOrder b ord)"
    and 2: "offset b + 2 \<le> cap b \<Longrightarrow> offset (SetOrder b ord) + 2 \<le> cap (SetOrder b ord)"
    and 4: "offset b + 4 \<le> cap b \<Longrightarrow> offset (SetOrder b ord) + 4 \<le> cap (SetOrder b ord)"
    and 8: "offset b + 8 \<le> cap b \<Longrightarrow> offset (SetOrder b ord) + 8 \<le> cap (SetOrder b ord)"
    by (simp_all add: fields_SetOrder)
  show ?thesis
    unfolding SIZEOF_1_BYTE_def SIZEOF_2_BYTE_def SIZEOF_4_BYTE_def SIZEOF_8_BYTE_def
    by (intro conjI impI rt_int8 rt_bool rt_int16 rt_uint16 rt_int32 rt_uint32 rt_float32
        rt_int64 rt_uint64 rt_float64 well_formed_order 1 2 4 8)
qed

theorem round_trip_witness:
  "(case NewByteBuffer 16 LittleEndian of
      Panics \<Rightarrow> False
    | Returns b \<Rightarrow>
        well_formed b \<and> offset b + SIZEOF_8_BYTE \<le> cap b \<and> is_int16 (- 2) \<and> is_int32 (- 70000) \<and>
        is_int64 (- 5000000000) \<and>
        write_then_read WriteInt8 ReadInt8 (SetOrder b BigEndian) 200 = Some 200 \<and>
        write_then_read WriteBoolean ReadBoolean (SetOrder b BigEndian) True = Some True \<and>
        write_then_read WriteInt16 ReadInt16 (SetOrder b BigEndian) (- 2) = Some (- 2) \<and>
        write_then_read WriteUInt16 ReadUInt16 (SetOrder b BigEndian) 65535 = Some 65535 \<and>
        write_then_read WriteInt32 ReadInt32 (SetOrder b BigEndian) (- 70000) = Some (- 70000) \<and>
        write_then_read WriteUInt32 ReadUInt32 (SetOrder b BigEndian) 4000000000
          = Some 4000000000 \<and>
        write_then_read WriteFloat32 ReadFloat32 (SetOrder b BigEndian)
          (Float32frombits 0x40490FDB) = Some (Float32frombits 0x40490FDB) \<and>
        write_then_read WriteInt64 ReadInt64 (SetOrder b BigEndian) (- 5000000000)
          = Some (- 5000000000) \<and>
        write_then_read WriteUInt64 ReadUInt64 (SetOrder b BigEndian) 18446744073709551615
          = Some 18446744073709551615 \<and>
        write_then_read WriteFloat64 ReadFloat64 (SetOrder b BigEndian)
          (Float64frombits 0x7FF8000000000001) = Some (Float64frombits 0x7FF8000000000001))"
proof -
  let ?b = "\<lparr>cap = 16, buf = replicate 16 0, length_bb = 0, offset = 0, order = LittleEndian\<rparr>"
  have new: "NewByteBuffer 16 LittleEndian = Returns ?b"
    by (simp add: NewByteBuffer_def max_len_def)
  have well_formed: "well_formed ?b"
    by (simp add: well_formed_def invariant_def len_def max_len_def)
  have sz: "offset ?b + SIZEOF_1_BYTE \<le> cap ?b" "offset ?b + SIZEOF_2_BYTE \<le> cap ?b"
    "offset ?b + SIZEOF_4_BYTE \<le> cap ?b" "offset ?b + SIZEOF_8_BYTE \<le> cap ?b"
    by (simp_all add: SIZEOF_1_BYTE_def SIZEOF_2_BYTE_def SIZEOF_4_BYTE_def SIZEOF_8_BYTE_def)
  have v: "is_int16 (- 2)" "is_int32 (- 70000)" "is_int64 (- 5000000000)"
    by (simp_all add: is_int16_def is_int32_def is_int64_def)
  from round_trip [OF well_formed, of BigEndian 200 True "- 2" 65535 "- 70000" 4000000000
      "Float32frombits 0x40490FDB" "- 5000000000" 18446744073709551615
      "Float64frombits 0x7FF8000000000001"] sz v well_formed
  show ?thesis
    unfolding new by simp
qed


section \<open>Reading a string up to a zero byte\<close>

lemma window_step:
  assumes "0 \<le> i" "i < n" "n \<le> len s"
  shows "take (nat (n - i)) (drop (nat i) s) =
     s ! nat i # take (nat (n - (i + 1))) (drop (nat (i + 1)) s)"
proof -
  from assms have lt: "nat i < length s" by (simp add: len_def)
  from assms have "nat (n - i) = Suc (nat (n - (i + 1)))" "nat (i + 1) = Suc (nat i)"
    by simp_all
  then show ?thesis
    by (simp add: Cons_nth_drop_Suc [OF lt, symmetric])
qed

lemma scan_zero_index:
  "0 \<le> i \<Longrightarrow> i \<le> n \<Longrightarrow> n \<le> len s \<Longrightarrow>
     scan_zero s i n =
       Returns (i + len (takeWhile (\<lambda>x. x \<noteq> 0) (take (nat (n - i)) (drop (nat i) s))))"
proof (induction s i n rule: scan_zero.induct)
  case (1 s i n)
  show ?case
  proof (cases "i < n")
    case False
    with "1.prems" show ?thesis by (subst scan_zero.simps) (simp add: len_def)
  next
    case True
    with "1.prems" have r: "in_range s i" by (simp add: in_range_def)
    note w = window_step [OF "1.prems"(1) True "1.prems"(3)]
    show ?thesis
    proof (cases "s ! nat i = 0")
      case True
      with \<open>i < n\<close> r show ?thesis
        by (subst scan_zero.simps) (simp add: w len_def)
    next
      case False
      with \<open>i < n\<close> r "1.prems" "1.IH" show ?thesis
        by (subst scan_zero.simps) (simp add: w len_def)
    qed
  qed
qed

lemma ReadString_negative:
  assumes well_formed: "well_formed b" and n: "n < 0"
  shows "ReadString b n =
     (Returns (takeWhile (\<lambda>x. x \<noteq> 0) (unread b), None),
      b\<lparr>offset := offset b + len (takeWhile (\<lambda>x. x \<noteq> 0) (unread b))\<rparr>)"
proof -
  let ?t = "takeWhile (\<lambda>x. x \<noteq> 0) (unread b)"
  from well_formed have o: "0 \<le> offset b" "offset b \<le> length_bb b" "length_bb b \<le> len (buf b)"
    by (auto simp: well_formed_def invariant_def)
  have sc: "scan_zero (buf b) (offset b) (length_bb b) = Returns (offset b + len ?t)"
    using scan_zero_index [OF o] by (simp add: unread_def)
  have "length ?t \<le> length (unread b)"
    by (rule length_takeWhile_le)
  also have "\<dots> \<le> nat (length_bb b - offset b)"
    by (simp add: unread_def)
  finally have tl: "length ?t \<le> nat (length_bb b - offset b)" .
  then have le: "offset b + len ?t \<le> length_bb b"
    using o by (simp add: len_def)
  have "?t = take (length ?t) (unread b)"
    by (rule takeWhile_eq_take)
  also have "\<dots> = take (length ?t) (drop (nat (offset b)) (buf b))"
    using tl by (simp add: unread_def min_def)
  finally have t: "take (length ?t) (drop (nat (offset b)) (buf b)) = ?t"
    by simp
  have sl: "slice_range (buf b) (offset b) (offset b + len ?t) = Some ?t"
    using o le t by (simp add: slice_range_def len_def)
  show ?thesis
    using n sc sl by (simp add: ReadString_def)
qed

lemma first_zero_after_takeWhile:
  "(0::byte) \<in> set xs \<Longrightarrow>
     length (takeWhile (\<lambda>x. x \<noteq> 0) xs) < length xs \<and>
     xs ! length (takeWhile (\<lambda>x. x \<noteq> 0) xs) = 0"
  by (induction xs) auto

lemma no_zero_takeWhile:
  "(0::byte) \<notin> set xs \<Longrightarrow> takeWhile (\<lambda>x. x \<noteq> 0) xs = xs"
  by (induction xs) auto

lemma length_unread: "well_formed b \<Longrightarrow> len (unread b) = length_bb b - offset b"
  by (auto simp: unread_def well_formed_def invariant_def len_def)

lemma nth_unread:
  "well_formed b \<Longrightarrow> k < length (unread b) \<Longrightarrow> unread b ! k = buf b ! (nat (offset b) + k)"
  by (auto simp: unread_def well_formed_def invariant_def len_def)

text \<open>
  Claim C2, as amended. On a well-formed state, \<open>ReadString\<close> with a negative length
  returns without an error the valid bytes from the cursor up to, and without, the first
  zero byte, and leaves the cursor on that zero byte: the terminator is not consumed, and
  the next read starts with it. With no zero byte in the valid data the cursor ends at
  the valid length. After the bytes 0x41, 0x42, 0x00, 0x43 and \<open>SetPosition(0)\<close>,
  \<open>ReadString(-1)\<close> returns the bytes of "AB" and leaves the cursor at 2.
\<close>

theorem ReadString_to_terminator:
  assumes "well_formed b" and "n < 0"
  shows "ReadString b n =
           (Returns (takeWhile (\<lambda>x. x \<noteq> 0) (unread b), None),
            b\<lparr>offset := offset b + len (takeWhile (\<lambda>x. x \<noteq> 0) (unread b))\<rparr>) \<and>
         (0 \<in> set (unread b) \<longrightarrow>
            Position (snd (ReadString b n)) < Length b \<and>
            buf b ! nat (Position (snd (ReadString b n))) = 0) \<and>
         (0 \<notin> set (unread b) \<longrightarrow> Position (snd (ReadString b n)) = Length b)"
proof -
  let ?t = "takeWhile (\<lambda>x. x \<noteq> 0) (unread b)"
  note rs = ReadString_negative [OF assms]
  from assms(1) have o: "0 \<le> offset b" by (simp add: well_formed_def invariant_def)
  have z: "Position (snd (ReadString b n)) < Length b \<and>
      buf b ! nat (Position (snd (ReadString b n))) = 0" if "0 \<in> set (unread b)"
  proof -
    from first_zero_after_takeWhile [OF that]
    have lt: "length ?t < length (unread b)" and nth: "unread b ! length ?t = 0"
      by simp_all
    from lt length_unread [OF assms(1)] have "offset b + len ?t < length_bb b"
      by (simp add: len_def)
    moreover from nth nth_unread [OF assms(1) lt] o
    have "buf b ! nat (offset b + len ?t) = 0"
      by (simp add: len_def nat_add_distrib)
    ultimately show ?thesis
      by (simp add: rs Position_def Length_def)
  qed
  have nz: "Position (snd (ReadString b n)) = Length b" if "0 \<notin> set (unread b)"
  proof -
    have "len ?t = len (unread b)"
      by (simp only: no_zero_takeWhile [OF that])
    with length_unread [OF assms(1)] have "offset b + len ?t = length_bb b"
      by arith
    then show ?thesis
      by (simp add: rs Position_def Length_def)
  qed
  from rs z nz show ?thesis by blast
qed


lemma written_AB0C_reached:
  "NewByteBuffer 4 LittleEndian =
     Returns \<lparr>cap = 4, buf = [0, 0, 0, 0], length_bb = 0, offset = 0, order = LittleEndian\<rparr>"
  "WriteBytes \<lparr>cap = 4, buf = [0, 0, 0, 0], length_bb = 0, offset = 0, order = LittleEndian\<rparr>
     [0x41, 0x42, 0x00, 0x43] = (Returns (4, None), written_AB0C\<lparr>offset := 4\<rparr>)"
  "SetPosition (written_AB0C\<lparr>offset := 4\<rparr>) 0 = (None, written_AB0C)"
  by (simp_all add: NewByteBuffer_def max_len_def WriteBytes_def applyWrite_def add_int_def
      len_def slice_from_def SetPosition_def written_AB0C_def numeral_eq_Suc)

lemma wf_written_AB0C: "well_formed written_AB0C" "well_formed at_terminator" "well_formed at_last_byte"
  by (simp_all add: well_formed_def invariant_def len_def max_len_def written_AB0C_def at_terminator_def
      at_last_byte_def)

lemma unread_written_AB0C:
  "unread written_AB0C = [0x41, 0x42, 0x00, 0x43]" "unread at_terminator = [0x00, 0x43]"
  "unread at_last_byte = [0x43]"
  by (simp_all add: unread_def written_AB0C_def at_terminator_def at_last_byte_def)

lemma fields_written_AB0C:
  "offset written_AB0C = 0" "length_bb written_AB0C = 4" "offset at_last_byte = 3"
  "length_bb at_last_byte = 4" "buf written_AB0C = [0x41, 0x42, 0x00, 0x43]"
  by (simp_all add: written_AB0C_def at_last_byte_def)

lemma ReadString_written_AB0C:
  "ReadString written_AB0C (- 1) = (Returns ([0x41, 0x42], None), written_AB0C\<lparr>offset := 2\<rparr>)"
  by (simp add: ReadString_negative [OF wf_written_AB0C(1)] unread_written_AB0C len_def
      fields_written_AB0C)

text \<open>
  Claim C2 as stated fails: in the state of its example the cursor is 2 after the call,
  not 3.
\<close>

theorem ReadString_AB0C_cursor:
  "NewByteBuffer 4 LittleEndian =
     Returns \<lparr>cap = 4, buf = [0, 0, 0, 0], length_bb = 0, offset = 0, order = LittleEndian\<rparr> \<and>
   WriteBytes \<lparr>cap = 4, buf = [0, 0, 0, 0], length_bb = 0, offset = 0, order = LittleEndian\<rparr>
     [0x41, 0x42, 0x00, 0x43] = (Returns (4, None), written_AB0C\<lparr>offset := 4\<rparr>) \<and>
   SetPosition (written_AB0C\<lparr>offset := 4\<rparr>) 0 = (None, written_AB0C) \<and>
   ReadString written_AB0C (- 1) = (Returns ([0x41, 0x42], None), written_AB0C\<lparr>offset := 2\<rparr>) \<and>
   Position (snd (ReadString written_AB0C (- 1))) = 2 \<and>
   Position (snd (ReadString written_AB0C (- 1))) \<noteq> 3"
  using written_AB0C_reached by (simp add: ReadString_written_AB0C Position_def)

theorem ReadString_to_terminator_witness:
  "well_formed written_AB0C \<and> (- 1 :: int) < 0 \<and> 0 \<in> set (unread written_AB0C) \<and>
   ReadString written_AB0C (- 1) = (Returns ([0x41, 0x42], None), written_AB0C\<lparr>offset := 2\<rparr>) \<and>
   Position (snd (ReadString written_AB0C (- 1))) < Length written_AB0C \<and>
   buf written_AB0C ! nat (Position (snd (ReadString written_AB0C (- 1)))) = 0 \<and>
   well_formed at_last_byte \<and> 0 \<notin> set (unread at_last_byte) \<and>
   fst (ReadString at_last_byte (- 1)) = Returns ([0x43], None) \<and>
   Position (snd (ReadString at_last_byte (- 1))) = Length at_last_byte"
proof -
  have z: "0 \<in> set (unread written_AB0C)" "0 \<notin> set (unread at_last_byte)"
    by (simp_all add: unread_written_AB0C)
  from ReadString_to_terminator [OF wf_written_AB0C(1), of "- 1"]
    ReadString_to_terminator [OF wf_written_AB0C(3), of "- 1"] z wf_written_AB0C
  show ?thesis
    by (simp add: unread_written_AB0C len_def fields_written_AB0C Position_def Length_def)
qed

text \<open>
  Claim C10. On a well-formed state whose cursor is below the valid length and on a zero
  byte, \<open>ReadString\<close> with a negative length returns the empty string without an error
  and leaves the state as it was, so any number of such calls in a row leaves the cursor
  where it is.
\<close>

theorem ReadString_at_terminator:
  assumes "well_formed b" and "offset b < length_bb b" and "buf b ! nat (offset b) = 0" and "n < 0"
  shows "ReadString b n = (Returns ([], None), b) \<and>
         ((\<lambda>s. snd (ReadString s n)) ^^ k) b = b"
proof -
  have "len (unread b) = length_bb b - offset b"
    by (rule length_unread [OF assms(1)])
  with assms(2) have "0 < len (unread b)"
    by arith
  then have ne: "unread b \<noteq> []"
    by (auto simp: len_def)
  then have "hd (unread b) = unread b ! 0"
    by (simp add: hd_conv_nth)
  also have "\<dots> = buf b ! nat (offset b)"
    using nth_unread [OF assms(1), of 0] ne by simp
  finally have "hd (unread b) = 0"
    using assms(3) by simp
  then have "takeWhile (\<lambda>x. x \<noteq> 0) (unread b) = []"
    by (simp add: takeWhile_eq_Nil_iff)
  then have rs: "ReadString b n = (Returns ([], None), b)"
    by (simp add: ReadString_negative [OF assms(1,4)] len_def)
  then have "((\<lambda>s. snd (ReadString s n)) ^^ k) b = b"
    by (induction k) simp_all
  with rs show ?thesis by simp
qed

theorem ReadString_at_terminator_witness:
  "well_formed at_terminator \<and> offset at_terminator < length_bb at_terminator \<and>
   buf at_terminator ! nat (offset at_terminator) = 0 \<and> (- 1 :: int) < 0 \<and>
   ReadString at_terminator (- 1) = (Returns ([], None), at_terminator) \<and>
   ((\<lambda>s. snd (ReadString s (- 1))) ^^ 3) at_terminator = at_terminator"
proof -
  have h: "offset at_terminator < length_bb at_terminator"
    "buf at_terminator ! nat (offset at_terminator) = 0"
    by (simp_all add: at_terminator_def written_AB0C_def)
  from ReadString_at_terminator [OF wf_written_AB0C(2) h, of "- 1" 3] h wf_written_AB0C(2)
  show ?thesis by simp
qed


section \<open>Access at a given offset\<close>

lemma add_int_wraps:
  assumes "2 ^ 63 \<le> a + b" "a + b < 2 ^ 64"
  shows "add_int a b = a + b - 2 ^ 64"
proof -
  have "add_int a b = (a + b + 2 ^ 63) mod 2 ^ 64 - 2 ^ 63"
    by (simp add: add_int_def signed_take_bit_eq_take_bit_shift take_bit_eq_mod)
  also have "(a + b + 2 ^ 63) mod 2 ^ 64 = (a + b + 2 ^ 63 - 2 ^ 64) mod 2 ^ 64"
    by (rule minus_mod_self2 [symmetric])
  also have "\<dots> = a + b + 2 ^ 63 - 2 ^ 64"
    using assms by (intro mod_pos_pos_trivial) simp_all
  finally show ?thesis by simp
qed

lemma offset_store_at: "offset (snd (store_at b off put)) = offset b"
  by (simp add: store_at_def split: option.splits)

lemma snd_load_at: "snd (load_at b off get conv) = b"
  by (simp add: load_at_def split: option.splits)

lemma guard_cases:
  assumes well_formed: "well_formed b" and off: "is_int off" and k: "0 < k" "k \<le> 8"
  shows "(off < 0 \<or> add_int off k > length_bb b) \<longleftrightarrow>
           \<not> (0 \<le> off \<and> off + k \<le> length_bb b) \<and> \<not> max_int < off + k"
proof (cases "max_int < off + k")
  case True
  with off k have "add_int off k = off + k - 2 ^ 64"
    by (intro add_int_wraps) (simp_all add: is_int_def max_int_def)
  with True off k well_formed show ?thesis
    by (auto simp: is_int_def max_int_def min_int_def well_formed_def invariant_def max_len_def)
next
  case False
  with off k have "add_int off k = off + k"
    by (intro add_int_id) (simp_all add: is_int_def max_int_def min_int_def)
  with False show ?thesis by auto
qed

lemma guarded_store:
  assumes well_formed: "well_formed b" and off: "is_int off" and k: "0 < k" "k \<le> 8"
    and put: "\<And>s. nat k \<le> length s \<Longrightarrow> put s \<noteq> None"
  shows "status_err (fst (if off < 0 \<or> add_int off k > length_bb b
            then (Returns (Some ErrorPositionOverflow), b) else store_at b off put)) =
         (if 0 \<le> off \<and> off + k \<le> length_bb b then Succeeded
          else if max_int < off + k then Panicked else Failed ErrorPositionOverflow)"
proof (cases "0 \<le> off \<and> off + k \<le> length_bb b")
  case True
  with well_formed k have "0 \<le> off" "off \<le> len (buf b)" "nat k \<le> length (drop (nat off) (buf b))"
    by (auto simp: well_formed_def invariant_def len_def)
  moreover from this put obtain s where "put (drop (nat off) (buf b)) = Some s"
    by blast
  moreover from True well_formed have "\<not> max_int < off + k"
    by (auto simp: well_formed_def invariant_def max_len_def max_int_def)
  ultimately show ?thesis
    using True guard_cases [OF well_formed off k] by (simp add: store_at_def slice_from_def)
next
  case False
  show ?thesis
  proof (cases "max_int < off + k")
    case True
    with k well_formed have "\<not> off \<le> len (buf b)"
      by (auto simp: well_formed_def invariant_def max_len_def max_int_def)
    with True False show ?thesis
      using guard_cases [OF well_formed off k] by (simp add: store_at_def slice_from_def)
  next
    case no: False
    with False show ?thesis
      using guard_cases [OF well_formed off k] by simp
  qed
qed

lemma guarded_load:
  assumes well_formed: "well_formed b" and off: "is_int off" and k: "0 < k" "k \<le> 8"
    and get: "\<And>s. nat k \<le> length s \<Longrightarrow> get s \<noteq> None"
  shows "status_val (fst (if off < 0 \<or> add_int off k > length_bb b
            then (Returns (z, Some ErrorPositionOverflow), b) else load_at b off get conv)) =
         (if 0 \<le> off \<and> off + k \<le> length_bb b then Succeeded
          else if max_int < off + k then Panicked else Failed ErrorPositionOverflow)"
proof (cases "0 \<le> off \<and> off + k \<le> length_bb b")
  case True
  with well_formed k have "0 \<le> off" "off \<le> len (buf b)" "nat k \<le> length (drop (nat off) (buf b))"
    by (auto simp: well_formed_def invariant_def len_def)
  moreover from this get obtain w where "get (drop (nat off) (buf b)) = Some w"
    by blast
  moreover from True well_formed have "\<not> max_int < off + k"
    by (auto simp: well_formed_def invariant_def max_len_def max_int_def)
  ultimately show ?thesis
    using True guard_cases [OF well_formed off k] by (simp add: load_at_def slice_from_def)
next
  case False
  show ?thesis
  proof (cases "max_int < off + k")
    case True
    with k well_formed have "\<not> off \<le> len (buf b)"
      by (auto simp: well_formed_def invariant_def max_len_def max_int_def)
    with True False show ?thesis
      using guard_cases [OF well_formed off k] by (simp add: load_at_def slice_from_def)
  next
    case no: False
    with False show ?thesis
      using guard_cases [OF well_formed off k] by simp
  qed
qed

lemma PutUint16_some: "2 \<le> length s \<Longrightarrow> PutUint16 ord v s \<noteq> None"
  by (cases ord) simp_all

lemma PutUint32_some: "4 \<le> length s \<Longrightarrow> PutUint32 ord v s \<noteq> None"
  by (cases ord) simp_all

lemma PutUint64_some: "8 \<le> length s \<Longrightarrow> PutUint64 ord v s \<noteq> None"
  by (cases ord) simp_all

lemma Uint16_some: "2 \<le> length s \<Longrightarrow> Uint16 ord s \<noteq> None"
  by (cases ord) simp_all

lemma Uint32_some: "4 \<le> length s \<Longrightarrow> Uint32 ord s \<noteq> None"
  by (cases ord) simp_all

lemma Uint64_some: "8 \<le> length s \<Longrightarrow> Uint64 ord s \<noteq> None"
  by (cases ord) simp_all

lemma status_PutUInt16:
  assumes "well_formed b" and "is_int off"
  shows "status_err (fst (PutUInt16 b off v)) =
         (if 0 \<le> off \<and> off + 2 \<le> length_bb b then Succeeded
          else if max_int < off + 2 then Panicked else Failed ErrorPositionOverflow)"
  unfolding PutUInt16_def SIZEOF_2_BYTE_def
  by (rule guarded_store [OF assms]) (simp_all add: PutUint16_some)

lemma status_PutUInt32:
  assumes "well_formed b" and "is_int off"
  shows "status_err (fst (PutUInt32 b off v)) =
         (if 0 \<le> off \<and> off + 4 \<le> length_bb b then Succeeded
          else if max_int < off + 4 then Panicked else Failed ErrorPositionOverflow)"
  unfolding PutUInt32_def SIZEOF_4_BYTE_def
  by (rule guarded_store [OF assms]) (simp_all add: PutUint32_some)

lemma offset_PutUInt32: "offset (snd (PutUInt32 b off v)) = offset b"
  by (simp add: PutUInt32_def offset_store_at)

lemma status_PutUInt64:
  assumes "well_formed b" and "is_int off"
  shows "status_err (fst (PutUInt64 b off v)) =
         (if 0 \<le> off \<and> off + 8 \<le> length_bb b then Succeeded
          else if max_int < off + 8 then Panicked else Failed ErrorPositionOverflow)"
  unfolding PutUInt64_def SIZEOF_8_BYTE_def
  by (rule guarded_store [OF assms]) (simp_all add: PutUint64_some)

lemma offset_PutUInt64: "offset (snd (PutUInt64 b off v)) = offset b"
  by (simp add: PutUInt64_def offset_store_at)

lemma status_GetUInt16:
  assumes "well_formed b" and "is_int off"
  shows "status_val (fst (GetUInt16 b off)) =
         (if 0 \<le> off \<and> off + 2 \<le> length_bb b then Succeeded
          else if max_int < off + 2 then Panicked else Failed ErrorPositionOverflow)"
  unfolding GetUInt16_def SIZEOF_2_BYTE_def
  by (rule guarded_load [OF assms]) (simp_all add: Uint16_some)

lemma snd_GetUInt16: "snd (GetUInt16 b off) = b"
  by (simp add: GetUInt16_def snd_load_at)

lemma status_GetUInt32:
  assumes "well_formed b" and "is_int off"
  shows "status_val (fst (GetUInt32 b off)) =
         (if 0 \<le> off \<and> off + 4 \<le> length_bb b then Succeeded
          else if max_int < off + 4 then Panicked else Failed ErrorPositionOverflow)"
  unfolding GetUInt32_def SIZEOF_4_BYTE_def
  by (rule guarded_load [OF assms]) (simp_all add: Uint32_some)

lemma snd_GetUInt32: "snd (GetUInt32 b off) = b"
  by (simp add: GetUInt32_def snd_load_at)

lemma status_GetUInt64:
  assumes "well_formed b" and "is_int off"
  shows "status_val (fst (GetUInt64 b off)) =
         (if 0 \<le> off \<and> off + 8 \<le> length_bb b then Succeeded
          else if max_int < off + 8 then Panicked else Failed ErrorPositionOverflow)"
  unfolding GetUInt64_def SIZEOF_8_BYTE_def
  by (rule guarded_load [OF assms]) (simp_all add: Uint64_some)

lemma snd_GetUInt64: "snd (GetUInt64 b off) = b"
  by (simp add: GetUInt64_def snd_load_at)

lemma offset_PutUInt16: "offset (snd (PutUInt16 b off v)) = offset b"
  by (simp add: PutUInt16_def offset_store_at)


text \<open>
  Claim C7. On a well-formed state and for every offset that is a Go \<open>int\<close>, each of
  \<open>PutUInt16\<close>, \<open>PutUInt32\<close>, \<open>PutUInt64\<close>, \<open>GetUInt16\<close>, \<open>GetUInt32\<close> and
  \<open>GetUInt64\<close> leaves the cursor where it was, however the call ends, and the call
  succeeds exactly when \<open>0 \<le> offset\<close> and \<open>offset + size \<le> validLength\<close>.
\<close>

theorem put_get_keep_position:
  assumes "well_formed b" and "is_int off"
  shows "Position (snd (PutUInt16 b off u16)) = Position b \<and>
         (status_err (fst (PutUInt16 b off u16)) = Succeeded) =
           (0 \<le> off \<and> off + SIZEOF_2_BYTE \<le> Length b) \<and>
         Position (snd (PutUInt32 b off u32)) = Position b \<and>
         (status_err (fst (PutUInt32 b off u32)) = Succeeded) =
           (0 \<le> off \<and> off + SIZEOF_4_BYTE \<le> Length b) \<and>
         Position (snd (PutUInt64 b off u64)) = Position b \<and>
         (status_err (fst (PutUInt64 b off u64)) = Succeeded) =
           (0 \<le> off \<and> off + SIZEOF_8_BYTE \<le> Length b) \<and>
         Position (snd (GetUInt16 b off)) = Position b \<and>
         (status_val (fst (GetUInt16 b off)) = Succeeded) =
           (0 \<le> off \<and> off + SIZEOF_2_BYTE \<le> Length b) \<and>
         Position (snd (GetUInt32 b off)) = Position b \<and>
         (status_val (fst (GetUInt32 b off)) = Succeeded) =
           (0 \<le> off \<and> off + SIZEOF_4_BYTE \<le> Length b) \<and>
         Position (snd (GetUInt64 b off)) = Position b \<and>
         (status_val (fst (GetUInt64 b off)) = Succeeded) =
           (0 \<le> off \<and> off + SIZEOF_8_BYTE \<le> Length b)"
  unfolding Position_def Length_def SIZEOF_2_BYTE_def SIZEOF_4_BYTE_def SIZEOF_8_BYTE_def
  by (simp add: status_PutUInt16 [OF assms] status_PutUInt32 [OF assms]
      status_PutUInt64 [OF assms] status_GetUInt16 [OF assms] status_GetUInt32 [OF assms]
      status_GetUInt64 [OF assms] offset_PutUInt16 offset_PutUInt32 offset_PutUInt64
      snd_GetUInt16 snd_GetUInt32 snd_GetUInt64)

theorem put_get_keep_position_witness:
  "well_formed written_AB0C \<and> is_int 1 \<and> is_int 3 \<and> is_int (- 1) \<and> is_int 9223372036854775806 \<and>
   Position (snd (PutUInt16 written_AB0C 1 0xBEEF)) = Position written_AB0C \<and>
   status_err (fst (PutUInt16 written_AB0C 1 0xBEEF)) = Succeeded \<and>
   Position (snd (GetUInt32 written_AB0C 0)) = Position written_AB0C \<and>
   status_val (fst (GetUInt32 written_AB0C 0)) = Succeeded \<and>
   Position (snd (PutUInt64 written_AB0C 3 7)) = Position written_AB0C \<and>
   status_err (fst (PutUInt64 written_AB0C 3 7)) = Failed ErrorPositionOverflow \<and>
   status_val (fst (GetUInt16 written_AB0C (- 1))) = Failed ErrorPositionOverflow \<and>
   Position (snd (GetUInt16 written_AB0C 9223372036854775806)) = Position written_AB0C \<and>
   status_val (fst (GetUInt16 written_AB0C 9223372036854775806)) = Panicked"
proof -
  have i: "is_int 1" "is_int 3" "is_int (- 1)" "is_int 9223372036854775806" "is_int 0"
    by (simp_all add: is_int_def min_int_def max_int_def)
  have f: "length_bb written_AB0C = 4"
    by (simp add: written_AB0C_def)
  from put_get_keep_position [OF wf_written_AB0C(1) i(1), of "0xBEEF"]
    put_get_keep_position [OF wf_written_AB0C(1) i(5)]
    put_get_keep_position [OF wf_written_AB0C(1) i(2), of _ _ 7]
    put_get_keep_position [OF wf_written_AB0C(1) i(4)]
    status_PutUInt64 [OF wf_written_AB0C(1) i(2), of 7]
    status_GetUInt16 [OF wf_written_AB0C(1) i(3)]
    status_GetUInt16 [OF wf_written_AB0C(1) i(4)]
    i wf_written_AB0C(1)
  show ?thesis
    by (simp add: f Length_def SIZEOF_2_BYTE_def SIZEOF_4_BYTE_def SIZEOF_8_BYTE_def max_int_def)
qed


section \<open>Booleans, byte slices and the cursor\<close>

text \<open>
  Claim C9. On a well-formed state with a valid byte at the cursor, \<open>ReadBoolean\<close>
  returns without an error, moves the cursor by one, and returns true exactly when that
  byte is 1: every other byte, 2 and 255 among them, reads as false.
\<close>

theorem ReadBoolean_only_one_is_true:
  assumes "well_formed b" and "offset b + 1 \<le> length_bb b"
  shows "ReadBoolean b =
     (Returns (buf b ! nat (offset b) = 1, None), b\<lparr>offset := offset b + 1\<rparr>)"
  by (simp add: ReadBoolean_def ReadInt8_avail [OF assms] TRUE_def)

theorem ReadBoolean_only_one_is_true_witness:
  "well_formed (flags_at 0) \<and> offset (flags_at 0) + 1 \<le> length_bb (flags_at 0) \<and>
   fst (ReadBoolean (flags_at 0)) = Returns (True, None) \<and>
   well_formed (flags_at 1) \<and> offset (flags_at 1) + 1 \<le> length_bb (flags_at 1) \<and>
   fst (ReadBoolean (flags_at 1)) = Returns (False, None) \<and>
   well_formed (flags_at 2) \<and> offset (flags_at 2) + 1 \<le> length_bb (flags_at 2) \<and>
   fst (ReadBoolean (flags_at 2)) = Returns (False, None) \<and>
   well_formed (flags_at 3) \<and> offset (flags_at 3) + 1 \<le> length_bb (flags_at 3) \<and>
   fst (ReadBoolean (flags_at 3)) = Returns (False, None)"
proof -
  have well_formed: "well_formed (flags_at 0)" "well_formed (flags_at 1)" "well_formed (flags_at 2)" "well_formed (flags_at 3)"
    by (simp_all add: well_formed_def invariant_def len_def max_len_def flags_at_def)
  have av: "offset (flags_at 0) + 1 \<le> length_bb (flags_at 0)"
    "offset (flags_at 1) + 1 \<le> length_bb (flags_at 1)"
    "offset (flags_at 2) + 1 \<le> length_bb (flags_at 2)"
    "offset (flags_at 3) + 1 \<le> length_bb (flags_at 3)"
    by (simp_all add: flags_at_def)
  from ReadBoolean_only_one_is_true [OF well_formed(1) av(1)] ReadBoolean_only_one_is_true [OF well_formed(2) av(2)]
    ReadBoolean_only_one_is_true [OF well_formed(3) av(3)] ReadBoolean_only_one_is_true [OF well_formed(4) av(4)]
    well_formed av
  show ?thesis
    by (simp add: flags_at_def)
qed

text \<open>
  Claim C3, as amended. On every state, \<open>ReadBytes\<close> with a length above the length of
  the destination fails with \<open>ErrorReadOverflow\<close>, the error of a read past the valid
  data, and changes neither the buffer nor the destination. The package has no error of
  its own for a length that does not fit the destination.
\<close>

theorem ReadBytes_length_over_destination:
  assumes "n > len dst"
  shows "ReadBytes b dst n = (Returns ((0, Some ErrorReadOverflow), dst), b)"
proof -
  have "0 \<le> len dst" by (simp add: len_def)
  with assms show ?thesis by (simp add: ReadBytes_def)
qed

theorem ReadBytes_length_over_destination_witness:
  "(1 :: int) > len ([] :: byte list) \<and>
   ReadBytes written_AB0C [] 1 = (Returns ((0, Some ErrorReadOverflow), []), written_AB0C)"
  using ReadBytes_length_over_destination [of "[]" 1 written_AB0C]
  by (simp add: len_def)

text \<open>
  Claim C3 as stated fails: a length of 3 for a destination of 2 bytes, with 4 valid
  bytes to read, fails with the same error as a read of 5 bytes from those 4.
\<close>

theorem ReadBytes_same_error_kind:
  "fst (exec written_AB0C (CReadBytes [0, 0] 3)) = Failed ErrorReadOverflow \<and>
   fst (exec written_AB0C (CReadBytes [0, 0, 0, 0, 0] 5)) = Failed ErrorReadOverflow \<and>
   fst (exec written_AB0C (CReadBytes [0, 0] 3)) =
     fst (exec written_AB0C (CReadBytes [0, 0, 0, 0, 0] 5))"
  by (simp add: ReadBytes_def len_def applyRead_def add_int_def written_AB0C_def)

text \<open>
  Claim C6. On every state and for every \<open>p\<close>, \<open>SetPosition(p)\<close> returns no error
  exactly when \<open>0 \<le> p \<le> validLength\<close>; it then sets the cursor to \<open>p\<close> and changes
  nothing else. Otherwise it returns \<open>ErrorPositionOverflow\<close> and leaves the state, and
  so the cursor, as it was.
\<close>

theorem SetPosition_range:
  "(fst (SetPosition b p) = None) = (0 \<le> p \<and> p \<le> Length b) \<and>
   (0 \<le> p \<and> p \<le> Length b \<longrightarrow>
      SetPosition b p = (None, b\<lparr>offset := p\<rparr>) \<and> Position (snd (SetPosition b p)) = p) \<and>
   (\<not> (0 \<le> p \<and> p \<le> Length b) \<longrightarrow>
      SetPosition b p = (Some ErrorPositionOverflow, b) \<and>
      Position (snd (SetPosition b p)) = Position b)"
  by (auto simp: SetPosition_def Length_def Position_def)

theorem SetPosition_range_witness:
  "(0 :: int) \<le> 3 \<and> 3 \<le> Length written_AB0C \<and>
   SetPosition written_AB0C 3 = (None, written_AB0C\<lparr>offset := 3\<rparr>) \<and>
   Position (snd (SetPosition written_AB0C 3)) = 3 \<and>
   \<not> (0 \<le> (5 :: int) \<and> 5 \<le> Length written_AB0C) \<and>
   SetPosition written_AB0C 5 = (Some ErrorPositionOverflow, written_AB0C) \<and>
   Position (snd (SetPosition written_AB0C 5)) = Position written_AB0C \<and>
   SetPosition written_AB0C (- 1) = (Some ErrorPositionOverflow, written_AB0C)"
proof -
  have l: "Length written_AB0C = 4"
    by (simp add: Length_def written_AB0C_def)
  from SetPosition_range [of written_AB0C 3] SetPosition_range [of written_AB0C 5]
    SetPosition_range [of written_AB0C "- 1"]
  show ?thesis
    by (simp add: l Position_def)
qed


section \<open>Calls that return an error\<close>

lemma applyWrite_refused: "snd (fst (applyWrite b sz)) \<or> snd (applyWrite b sz) = b"
  by (simp add: applyWrite_def Let_def)

lemma applyRead_refused: "snd (fst (applyRead b sz)) \<or> snd (applyRead b sz) = b"
  by (simp add: applyRead_def)

lemma store_at_not_Failed: "status_err (fst (store_at b off put)) \<noteq> Failed e"
  by (simp add: store_at_def split: option.splits)

lemma load_at_not_Failed: "status_val (fst (load_at b off get conv)) \<noteq> Failed e"
  by (simp add: load_at_def split: option.splits)

lemma Failed_store:
  assumes "status_err (fst (case applyWrite b sz of ((off, ok), b1) \<Rightarrow>
      if \<not> ok then (Returns (Some ErrorWriteOverflow), b1) else store_at b1 off (put b1))) = Failed e"
  shows "snd (case applyWrite b sz of ((off, ok), b1) \<Rightarrow>
      if \<not> ok then (Returns (Some ErrorWriteOverflow), b1) else store_at b1 off (put b1)) = b"
  using assms applyWrite_refused [of b sz]
  by (cases "applyWrite b sz") (auto simp: store_at_not_Failed)

lemma Failed_load:
  assumes "status_val (fst (case applyRead b sz of ((off, ok), b1) \<Rightarrow>
      if \<not> ok then (Returns (z, Some ErrorReadOverflow), b1) else load_at b1 off (get b1) conv)) = Failed e"
  shows "snd (case applyRead b sz of ((off, ok), b1) \<Rightarrow>
      if \<not> ok then (Returns (z, Some ErrorReadOverflow), b1) else load_at b1 off (get b1) conv) = b"
  using assms applyRead_refused [of b sz]
  by (cases "applyRead b sz") (auto simp: load_at_not_Failed)

lemma Failed_WriteInt8:
  "status_err (fst (WriteInt8 b v)) = Failed e \<Longrightarrow> snd (WriteInt8 b v) = b"
  using applyWrite_refused [of b SIZEOF_1_BYTE]
  by (cases "applyWrite b SIZEOF_1_BYTE") (auto simp: WriteInt8_def split: if_splits)

lemma Failed_WriteBytes:
  "status_val (fst (WriteBytes b v)) = Failed e \<Longrightarrow> snd (WriteBytes b v) = b"
  using applyWrite_refused [of b "len v"]
  by (cases "applyWrite b (len v)") (auto simp: WriteBytes_def Let_def split: if_splits option.splits)

lemma Failed_ReadInt8:
  "status_val (fst (ReadInt8 b)) = Failed e \<Longrightarrow> snd (ReadInt8 b) = b"
  using applyRead_refused [of b SIZEOF_1_BYTE]
  by (cases "applyRead b SIZEOF_1_BYTE") (auto simp: ReadInt8_def split: if_splits)

lemma status_val_test: "status_val (Returns (a = TRUE, x)) = status_val (Returns (a, x))"
  by (cases x) simp_all

lemma ReadBoolean_as_ReadInt8:
  "status_val (fst (ReadBoolean b)) = status_val (fst (ReadInt8 b))"
  "snd (ReadBoolean b) = snd (ReadInt8 b)"
  by (auto simp: ReadBoolean_def status_val_test split: prod.splits outcome.splits)

lemma Failed_ReadBoolean:
  "status_val (fst (ReadBoolean b)) = Failed e \<Longrightarrow> snd (ReadBoolean b) = b"
  by (simp add: ReadBoolean_as_ReadInt8 Failed_ReadInt8)

lemma ReadString_negative_length:
  "n < 0 \<Longrightarrow> ReadString b n =
     (case scan_zero (buf b) (offset b) (length_bb b) of
        Panics \<Rightarrow> (Panics, b)
      | Returns endIndex \<Rightarrow>
          (case slice_range (buf b) (offset b) endIndex of
             None \<Rightarrow> (Panics, b\<lparr>offset := endIndex\<rparr>)
           | Some s \<Rightarrow> (Returns (s, None), b\<lparr>offset := endIndex\<rparr>)))"
  by (simp add: ReadString_def Let_def split: outcome.splits option.splits)

lemma ReadString_positive_length:
  "0 < n \<Longrightarrow> ReadString b n =
     (if add_int (offset b) n > length_bb b then (Returns ([], Some ErrorReadOverflow), b)
      else
        (case slice_range (buf b) (offset b) (add_int (offset b) n) of
           None \<Rightarrow> (Panics, b\<lparr>offset := add_int (offset b) n\<rparr>)
         | Some s \<Rightarrow> (Returns (s, None), b\<lparr>offset := add_int (offset b) n\<rparr>)))"
  by (simp add: ReadString_def applyRead_def)

lemma Failed_ReadString:
  assumes "status_val (fst (ReadString b n)) = Failed e"
  shows "snd (ReadString b n) = b"
proof -
  consider "n = 0" | "n < 0" | "0 < n" by linarith
  then show ?thesis
  proof cases
    case 1
    then show ?thesis by (simp add: ReadString_def)
  next
    case 2
    with assms show ?thesis
      by (simp add: ReadString_negative_length split: outcome.splits option.splits)
  next
    case 3
    with assms show ?thesis
      by (simp add: ReadString_positive_length split: if_splits option.splits)
  qed
qed

lemma Failed_ReadBytes:
  assumes "status_dst (fst (ReadBytes b dst n)) = Failed e"
  shows "snd (ReadBytes b dst n) = b"
proof -
  consider "n = 0" | "n < 0" | "0 < n" "n > len dst" | "0 < n" "\<not> n > len dst"
    by linarith
  then show ?thesis
  proof cases
    case 1
    then show ?thesis by (simp add: ReadBytes_def)
  next
    case 2
    with assms show ?thesis
      by (simp add: ReadBytes_def applyRead_def Let_def split: if_splits option.splits)
  next
    case 3
    then show ?thesis by (simp add: ReadBytes_def)
  next
    case 4
    with assms show ?thesis
      by (simp add: ReadBytes_def applyRead_def Let_def split: if_splits option.splits)
  qed
qed

lemma Failed_guarded_store:
  "status_err (fst (if g then (Returns (Some ErrorPositionOverflow), b) else store_at b off put))
     = Failed e \<Longrightarrow>
   snd (if g then (Returns (Some ErrorPositionOverflow), b) else store_at b off put) = b"
  by (auto simp: store_at_not_Failed split: if_splits)

lemma Failed_guarded_load:
  "status_val (fst (if g then (Returns (z, Some ErrorPositionOverflow), b)
      else load_at b off get conv)) = Failed e \<Longrightarrow>
   snd (if g then (Returns (z, Some ErrorPositionOverflow), b) else load_at b off get conv) = b"
  by (auto simp: load_at_not_Failed split: if_splits)

lemma Failed_WriteUInt16:
  "status_err (fst (WriteUInt16 b v)) = Failed e \<Longrightarrow> snd (WriteUInt16 b v) = b"
  unfolding WriteUInt16_def by (rule Failed_store)

lemma Failed_WriteInt16:
  "status_err (fst (WriteInt16 b v)) = Failed e \<Longrightarrow> snd (WriteInt16 b v) = b"
  unfolding WriteInt16_def by (rule Failed_store)

lemma Failed_WriteUInt32:
  "status_err (fst (WriteUInt32 b v)) = Failed e \<Longrightarrow> snd (WriteUInt32 b v) = b"
  unfolding WriteUInt32_def by (rule Failed_store)

lemma Failed_WriteInt32:
  "status_err (fst (WriteInt32 b v)) = Failed e \<Longrightarrow> snd (WriteInt32 b v) = b"
  unfolding WriteInt32_def by (rule Failed_store)

lemma Failed_WriteUInt64:
  "status_err (fst (WriteUInt64 b v)) = Failed e \<Longrightarrow> snd (WriteUInt64 b v) = b"
  unfolding WriteUInt64_def by (rule Failed_store)

lemma Failed_WriteInt64:
  "status_err (fst (WriteInt64 b v)) = Failed e \<Longrightarrow> snd (WriteInt64 b v) = b"
  unfolding WriteInt64_def by (rule Failed_store)

lemma Failed_WriteFloat32:
  "status_err (fst (WriteFloat32 b v)) = Failed e \<Longrightarrow> snd (WriteFloat32 b v) = b"
  unfolding WriteFloat32_def by (rule Failed_store)

lemma Failed_WriteFloat64:
  "status_err (fst (WriteFloat64 b v)) = Failed e \<Longrightarrow> snd (WriteFloat64 b v) = b"
  unfolding WriteFloat64_def by (rule Failed_store)

lemma Failed_ReadUInt16:
  "status_val (fst (ReadUInt16 b)) = Failed e \<Longrightarrow> snd (ReadUInt16 b) = b"
  unfolding ReadUInt16_def by (rule Failed_load)

lemma Failed_ReadInt16:
  "status_val (fst (ReadInt16 b)) = Failed e \<Longrightarrow> snd (ReadInt16 b) = b"
  unfolding ReadInt16_def by (rule Failed_load)

lemma Failed_ReadUInt32:
  "status_val (fst (ReadUInt32 b)) = Failed e \<Longrightarrow> snd (ReadUInt32 b) = b"
  unfolding ReadUInt32_def by (rule Failed_load)

lemma Failed_ReadInt32:
  "status_val (fst (ReadInt32 b)) = Failed e \<Longrightarrow> snd (ReadInt32 b) = b"
  unfolding ReadInt32_def by (rule Failed_load)

lemma Failed_ReadUInt64:
  "status_val (fst (ReadUInt64 b)) = Failed e \<Longrightarrow> snd (ReadUInt64 b) = b"
  unfolding ReadUInt64_def by (rule Failed_load)

lemma Failed_ReadInt64:
  "status_val (fst (ReadInt64 b)) = Failed e \<Longrightarrow> snd (ReadInt64 b) = b"
  unfolding ReadInt64_def by (rule Failed_load)

lemma Failed_ReadFloat32:
  "status_val (fst (ReadFloat32 b)) = Failed e \<Longrightarrow> snd (ReadFloat32 b) = b"
  unfolding ReadFloat32_def by (rule Failed_load)

lemma Failed_ReadFloat64:
  "status_val (fst (ReadFloat64 b)) = Failed e \<Longrightarrow> snd (ReadFloat64 b) = b"
  unfolding ReadFloat64_def by (rule Failed_load)

lemma Failed_PutUInt16:
  "status_err (fst (PutUInt16 b off v)) = Failed e \<Longrightarrow> snd (PutUInt16 b off v) = b"
  unfolding PutUInt16_def by (rule Failed_guarded_store)

lemma Failed_PutUInt32:
  "status_err (fst (PutUInt32 b off v)) = Failed e \<Longrightarrow> snd (PutUInt32 b off v) = b"
  unfolding PutUInt32_def by (rule Failed_guarded_store)

lemma Failed_PutUInt64:
  "status_err (fst (PutUInt64 b off v)) = Failed e \<Longrightarrow> snd (PutUInt64 b off v) = b"
  unfolding PutUInt64_def by (rule Failed_guarded_store)

lemma Failed_GetUInt16:
  "status_val (fst (GetUInt16 b off)) = Failed e \<Longrightarrow> snd (GetUInt16 b off) = b"
  unfolding GetUInt16_def by (rule Failed_guarded_load)

lemma Failed_GetUInt32:
  "status_val (fst (GetUInt32 b off)) = Failed e \<Longrightarrow> snd (GetUInt32 b off) = b"
  unfolding GetUInt32_def by (rule Failed_guarded_load)

lemma Failed_GetUInt64:
  "status_val (fst (GetUInt64 b off)) = Failed e \<Longrightarrow> snd (GetUInt64 b off) = b"
  unfolding GetUInt64_def by (rule Failed_guarded_load)

lemma Failed_WriteBoolean:
  "status_err (fst (WriteBoolean b v)) = Failed e \<Longrightarrow> snd (WriteBoolean b v) = b"
  by (simp add: WriteBoolean_def Failed_WriteInt8 split: if_splits)

lemma Failed_SetPosition:
  "status_err (Returns (fst (SetPosition b p))) = Failed e \<Longrightarrow> snd (SetPosition b p) = b"
  by (auto simp: SetPosition_def split: if_splits)

lemmas Failed_calls =
  Failed_SetPosition Failed_WriteInt8 Failed_WriteBoolean Failed_WriteBytes
  Failed_WriteUInt16 Failed_WriteInt16 Failed_WriteUInt32 Failed_WriteInt32
  Failed_WriteUInt64 Failed_WriteInt64 Failed_WriteFloat32 Failed_WriteFloat64
  Failed_ReadInt8 Failed_ReadBoolean Failed_ReadString Failed_ReadBytes
  Failed_ReadUInt16 Failed_ReadInt16 Failed_ReadUInt32 Failed_ReadInt32
  Failed_ReadUInt64 Failed_ReadInt64 Failed_ReadFloat32 Failed_ReadFloat64
  Failed_PutUInt16 Failed_PutUInt32 Failed_PutUInt64
  Failed_GetUInt16 Failed_GetUInt32 Failed_GetUInt64

lemma Failed_exec: "fst (exec b c) = Failed e \<Longrightarrow> snd (exec b c) = b"
  by (cases c) (simp_all add: Failed_calls WriteString_def split: outcome.splits)

text \<open>
  Claim C4. For every call of the interface and every state, a call that returns an
  error leaves the state it was made in: storage, valid length, cursor, capacity and byte
  order are the same after the call.
\<close>

theorem errors_change_nothing:
  assumes "exec b c = (Failed e, b')"
  shows "b' = b"
  using Failed_exec [of b c e] assms by simp

theorem errors_change_nothing_witness:
  "exec at_last_byte CReadInt16 = (Failed ErrorReadOverflow, at_last_byte) \<and>
   exec at_last_byte (CWriteUInt32 7) = (Failed ErrorWriteOverflow, at_last_byte) \<and>
   exec at_last_byte (CPutUInt16 3 7) = (Failed ErrorPositionOverflow, at_last_byte)"
proof -
  have f: "fst (exec at_last_byte CReadInt16) = Failed ErrorReadOverflow"
    "fst (exec at_last_byte (CWriteUInt32 7)) = Failed ErrorWriteOverflow"
    "fst (exec at_last_byte (CPutUInt16 3 7)) = Failed ErrorPositionOverflow"
    by (simp_all add: ReadInt16_def WriteUInt32_def PutUInt16_def applyRead_def applyWrite_def
        add_int_def SIZEOF_2_BYTE_def SIZEOF_4_BYTE_def at_last_byte_def written_AB0C_def)
  show ?thesis
    using f errors_change_nothing [of at_last_byte CReadInt16 ErrorReadOverflow
        "snd (exec at_last_byte CReadInt16)"]
      errors_change_nothing [of at_last_byte "CWriteUInt32 7" ErrorWriteOverflow
        "snd (exec at_last_byte (CWriteUInt32 7))"]
      errors_change_nothing [of at_last_byte "CPutUInt16 3 7" ErrorPositionOverflow
        "snd (exec at_last_byte (CPutUInt16 3 7))"]
    by (metis prod.collapse)
qed


section \<open>Writing up to the capacity\<close>

lemma wf_grows_to: "well_formed b \<Longrightarrow> 0 \<le> n \<Longrightarrow> offset b + n \<le> cap b \<Longrightarrow> grows_to b n b' \<Longrightarrow> well_formed b'"
  by (auto simp: well_formed_def invariant_def grows_to_def len_def)

lemma applyWrite_overflows:
  assumes well_formed: "well_formed b" and sz: "0 \<le> sz" "sz \<le> max_len" and over: "cap b < offset b + sz"
  shows "applyWrite b sz = ((offset b, False), b)"
proof -
  have "add_int (offset b) sz = offset b + sz"
    using well_formed sz by (intro add_int_small) (auto simp: well_formed_def invariant_def)
  with over show ?thesis by (simp add: applyWrite_def)
qed

lemma PutUint16_length: "PutUint16 ord v s = Some s' \<Longrightarrow> length s' = length s"
  by (cases ord) (auto split: if_splits)

lemma PutUint32_length: "PutUint32 ord v s = Some s' \<Longrightarrow> length s' = length s"
  by (cases ord) (auto split: if_splits)

lemma PutUint64_length: "PutUint64 ord v s = Some s' \<Longrightarrow> length s' = length s"
  by (cases ord) (auto split: if_splits)

lemma store_fits:
  assumes well_formed: "well_formed b" and sz: "0 \<le> sz" and fits: "offset b + sz \<le> cap b"
    and some: "\<And>b1 s. nat sz \<le> length s \<Longrightarrow> put b1 s \<noteq> None"
    and same: "\<And>b1 s s'. put b1 s = Some s' \<Longrightarrow> length s' = length s"
  shows "\<exists>b'. (case applyWrite b sz of ((off, ok), b1) \<Rightarrow>
            if \<not> ok then (Returns (Some ErrorWriteOverflow), b1)
            else store_at b1 off (put b1)) = (Returns None, b') \<and> grows_to b sz b'"
proof -
  let ?b1 = "b\<lparr>offset := offset b + sz, length_bb := max (length_bb b) (offset b + sz)\<rparr>"
  from well_formed sz fits have o: "0 \<le> offset b" "offset b \<le> len (buf b)"
    "nat sz \<le> length (drop (nat (offset b)) (buf b))"
    by (auto simp: well_formed_def invariant_def len_def)
  from some [OF o(3), of ?b1] obtain s' where s': "put ?b1 (drop (nat (offset b)) (buf b)) = Some s'"
    by auto
  from same [OF s'] o have "length (take (nat (offset b)) (buf b) @ s') = length (buf b)"
    by (simp add: len_def)
  then show ?thesis
    using o s' by (simp add: applyWrite_fits [OF well_formed sz fits] store_at_def slice_from_def grows_to_def)
qed

lemma store_overflows:
  assumes well_formed: "well_formed b" and sz: "0 \<le> sz" "sz \<le> max_len" and over: "cap b < offset b + sz"
  shows "(case applyWrite b sz of ((off, ok), b1) \<Rightarrow>
            if \<not> ok then (Returns (Some ErrorWriteOverflow), b1)
            else store_at b1 off (put b1)) = (Returns (Some ErrorWriteOverflow), b)"
  by (simp add: applyWrite_overflows [OF assms])

lemma WriteBytes_fits:
  assumes well_formed: "well_formed b" and fits: "offset b + len v \<le> cap b"
  shows "\<exists>b'. WriteBytes b v = (Returns (len v, None), b') \<and> grows_to b (len v) b'"
proof -
  have sz: "0 \<le> len v" by (simp add: len_def)
  from well_formed fits have o: "0 \<le> offset b" "offset b \<le> len (buf b)"
    "length v \<le> length (drop (nat (offset b)) (buf b))" "nat (offset b) \<le> length (buf b)"
    by (auto simp: well_formed_def invariant_def len_def)
  have "WriteBytes b v =
      (Returns (int (min (length (drop (nat (offset b)) (buf b))) (length v)), None),
       b\<lparr>offset := offset b + len v, length_bb := max (length_bb b) (offset b + len v),
         buf := take (nat (offset b)) (buf b) @
           take (min (length (drop (nat (offset b)) (buf b))) (length v)) v @
           drop (min (length (drop (nat (offset b)) (buf b))) (length v))
             (drop (nat (offset b)) (buf b))\<rparr>)"
    using o(1,2)
    by (simp add: WriteBytes_def applyWrite_fits [OF well_formed sz fits] slice_from_def Let_def)
  with o show ?thesis
    by (simp add: grows_to_def min_def len_def)
qed

lemma WriteBytes_overflows:
  assumes well_formed: "well_formed b" and sz: "len v \<le> max_len" and over: "cap b < offset b + len v"
  shows "WriteBytes b v = (Returns (0, Some ErrorWriteOverflow), b)"
proof -
  have "0 \<le> len v" by (simp add: len_def)
  from applyWrite_overflows [OF well_formed this sz over] show ?thesis
    by (simp add: WriteBytes_def)
qed

lemma WriteInt8_grows:
  assumes well_formed: "well_formed b" and fits: "offset b + 1 \<le> cap b"
  shows "\<exists>b'. WriteInt8 b v = (Returns None, b') \<and> grows_to b 1 b'"
  by (simp add: WriteInt8_fits [OF assms] grows_to_def)

lemma WriteInt8_overflows:
  assumes well_formed: "well_formed b" and over: "cap b < offset b + 1"
  shows "WriteInt8 b v = (Returns (Some ErrorWriteOverflow), b)"
proof -
  have "applyWrite b 1 = ((offset b, False), b)"
    using well_formed over by (intro applyWrite_overflows) (simp_all add: max_len_def)
  then show ?thesis by (simp add: WriteInt8_def SIZEOF_1_BYTE_def)
qed

lemma exec_CWriteUInt16_fits:
  assumes "well_formed b" and "offset b + 2 \<le> cap b"
  shows "\<exists>b'. exec b (CWriteUInt16 v) = (Succeeded, b') \<and> grows_to b 2 b'"
proof -
  have "\<exists>b'. WriteUInt16 b v = (Returns None, b') \<and> grows_to b 2 b'"
    unfolding WriteUInt16_def SIZEOF_2_BYTE_def using assms
    by (intro store_fits) (auto simp: PutUint16_some dest: PutUint16_length)
  then show ?thesis by auto
qed

lemma exec_CWriteUInt16_overflows:
  assumes "well_formed b" and "cap b < offset b + 2"
  shows "exec b (CWriteUInt16 v) = (Failed ErrorWriteOverflow, b)"
proof -
  have "WriteUInt16 b v = (Returns (Some ErrorWriteOverflow), b)"
    unfolding WriteUInt16_def SIZEOF_2_BYTE_def using assms
    by (intro store_overflows) (simp_all add: max_len_def)
  then show ?thesis by simp
qed

lemma exec_CWriteInt16_fits:
  assumes "well_formed b" and "offset b + 2 \<le> cap b"
  shows "\<exists>b'. exec b (CWriteInt16 v) = (Succeeded, b') \<and> grows_to b 2 b'"
proof -
  have "\<exists>b'. WriteInt16 b v = (Returns None, b') \<and> grows_to b 2 b'"
    unfolding WriteInt16_def SIZEOF_2_BYTE_def using assms
    by (intro store_fits) (auto simp: PutUint16_some dest: PutUint16_length)
  then show ?thesis by auto
qed

lemma exec_CWriteInt16_overflows:
  assumes "well_formed b" and "cap b < offset b + 2"
  shows "exec b (CWriteInt16 v) = (Failed ErrorWriteOverflow, b)"
proof -
  have "WriteInt16 b v = (Returns (Some ErrorWriteOverflow), b)"
    unfolding WriteInt16_def SIZEOF_2_BYTE_def using assms
    by (intro store_overflows) (simp_all add: max_len_def)
  then show ?thesis by simp
qed

lemma exec_CWriteUInt32_fits:
  assumes "well_formed b" and "offset b + 4 \<le> cap b"
  shows "\<exists>b'. exec b (CWriteUInt32 v) = (Succeeded, b') \<and> grows_to b 4 b'"
proof -
  have "\<exists>b'. WriteUInt32 b v = (Returns None, b') \<and> grows_to b 4 b'"
    unfolding WriteUInt32_def SIZEOF_4_BYTE_def using assms
    by (intro store_fits) (auto simp: PutUint32_some dest: PutUint32_length)
  then show ?thesis by auto
qed

lemma exec_CWriteUInt32_overflows:
  assumes "well_formed b" and "cap b < offset b + 4"
  shows "exec b (CWriteUInt32 v) = (Failed ErrorWriteOverflow, b)"
proof -
  have "WriteUInt32 b v = (Returns (Some ErrorWriteOverflow), b)"
    unfolding WriteUInt32_def SIZEOF_4_BYTE_def using assms
    by (intro store_overflows) (simp_all add: max_len_def)
  then show ?thesis by simp
qed

lemma exec_CWriteInt32_fits:
  assumes "well_formed b" and "offset b + 4 \<le> cap b"
  shows "\<exists>b'. exec b (CWriteInt32 v) = (Succeeded, b') \<and> grows_to b 4 b'"
proof -
  have "\<exists>b'. WriteInt32 b v = (Returns None, b') \<and> grows_to b 4 b'"
    unfolding WriteInt32_def SIZEOF_4_BYTE_def using assms
    by (intro store_fits) (auto simp: PutUint32_some dest: PutUint32_length)
  then show ?thesis by auto
qed

lemma exec_CWriteInt32_overflows:
  assumes "well_formed b" and "cap b < offset b + 4"
  shows "exec b (CWriteInt32 v) = (Failed ErrorWriteOverflow, b)"
proof -
  have "WriteInt32 b v = (Returns (Some ErrorWriteOverflow), b)"
    unfolding WriteInt32_def SIZEOF_4_BYTE_def using assms
    by (intro store_overflows) (simp_all add: max_len_def)
  then show ?thesis by simp
qed

lemma exec_CWriteUInt64_fits:
  assumes "well_formed b" and "offset b + 8 \<le> cap b"
  shows "\<exists>b'. exec b (CWriteUInt64 v) = (Succeeded, b') \<and> grows_to b 8 b'"
proof -
  have "\<exists>b'. WriteUInt64 b v = (Returns None, b') \<and> grows_to b 8 b'"
    unfolding WriteUInt64_def SIZEOF_8_BYTE_def using assms
    by (intro store_fits) (auto simp: PutUint64_some dest: PutUint64_length)
  then show ?thesis by auto
qed

lemma exec_CWriteUInt64_overflows:
  assumes "well_formed b" and "cap b < offset b + 8"
  shows "exec b (CWriteUInt64 v) = (Failed ErrorWriteOverflow, b)"
proof -
  have "WriteUInt64 b v = (Returns (Some ErrorWriteOverflow), b)"
    unfolding WriteUInt64_def SIZEOF_8_BYTE_def using assms
    by (intro store_overflows) (simp_all add: max_len_def)
  then show ?thesis by simp
qed

lemma exec_CWriteInt64_fits:
  assumes "well_formed b" and "offset b + 8 \<le> cap b"
  shows "\<exists>b'. exec b (CWriteInt64 v) = (Succeeded, b') \<and> grows_to b 8 b'"
proof -
  have "\<exists>b'. WriteInt64 b v = (Returns None, b') \<and> grows_to b 8 b'"
    unfolding WriteInt64_def SIZEOF_8_BYTE_def using assms
    by (intro store_fits) (auto simp: PutUint64_some dest: PutUint64_length)
  then show ?thesis by auto
qed

lemma exec_CWriteInt64_overflows:
  assumes "well_formed b" and "cap b < offset b + 8"
  shows "exec b (CWriteInt64 v) = (Failed ErrorWriteOverflow, b)"
proof -
  have "WriteInt64 b v = (Returns (Some ErrorWriteOverflow), b)"
    unfolding WriteInt64_def SIZEOF_8_BYTE_def using assms
    by (intro store_overflows) (simp_all add: max_len_def)
  then show ?thesis by simp
qed

lemma exec_CWriteFloat32_fits:
  assumes "well_formed b" and "offset b + 4 \<le> cap b"
  shows "\<exists>b'. exec b (CWriteFloat32 v) = (Succeeded, b') \<and> grows_to b 4 b'"
proof -
  have "\<exists>b'. WriteFloat32 b v = (Returns None, b') \<and> grows_to b 4 b'"
    unfolding WriteFloat32_def SIZEOF_4_BYTE_def using assms
    by (intro store_fits) (auto simp: PutUint32_some dest: PutUint32_length)
  then show ?thesis by auto
qed

lemma exec_CWriteFloat32_overflows:
  assumes "well_formed b" and "cap b < offset b + 4"
  shows "exec b (CWriteFloat32 v) = (Failed ErrorWriteOverflow, b)"
proof -
  have "WriteFloat32 b v = (Returns (Some ErrorWriteOverflow), b)"
    unfolding WriteFloat32_def SIZEOF_4_BYTE_def using assms
    by (intro store_overflows) (simp_all add: max_len_def)
  then show ?thesis by simp
qed

lemma exec_CWriteFloat64_fits:
  assumes "well_formed b" and "offset b + 8 \<le> cap b"
  shows "\<exists>b'. exec b (CWriteFloat64 v) = (Succeeded, b') \<and> grows_to b 8 b'"
proof -
  have "\<exists>b'. WriteFloat64 b v = (Returns None, b') \<and> grows_to b 8 b'"
    unfolding WriteFloat64_def SIZEOF_8_BYTE_def using assms
    by (intro store_fits) (auto simp: PutUint64_some dest: PutUint64_length)
  then show ?thesis by auto
qed

lemma exec_CWriteFloat64_overflows:
  assumes "well_formed b" and "cap b < offset b + 8"
  shows "exec b (CWriteFloat64 v) = (Failed ErrorWriteOverflow, b)"
proof -
  have "WriteFloat64 b v = (Returns (Some ErrorWriteOverflow), b)"
    unfolding WriteFloat64_def SIZEOF_8_BYTE_def using assms
    by (intro store_overflows) (simp_all add: max_len_def)
  then show ?thesis by simp
qed

lemma exec_CWriteInt8_fits:
  assumes "well_formed b" and "offset b + 1 \<le> cap b"
  shows "\<exists>b'. exec b (CWriteInt8 v) = (Succeeded, b') \<and> grows_to b 1 b'"
  using WriteInt8_grows [OF assms, of v] by auto

lemma exec_CWriteInt8_overflows:
  assumes "well_formed b" and "cap b < offset b + 1"
  shows "exec b (CWriteInt8 v) = (Failed ErrorWriteOverflow, b)"
  by (simp add: WriteInt8_overflows [OF assms])

lemma exec_CWriteBoolean_fits:
  assumes "well_formed b" and "offset b + 1 \<le> cap b"
  shows "\<exists>b'. exec b (CWriteBoolean v) = (Succeeded, b') \<and> grows_to b 1 b'"
  using WriteInt8_grows [OF assms, of TRUE] WriteInt8_grows [OF assms, of FALSE]
  by (auto simp: WriteBoolean_def)

lemma exec_CWriteBoolean_overflows:
  assumes "well_formed b" and "cap b < offset b + 1"
  shows "exec b (CWriteBoolean v) = (Failed ErrorWriteOverflow, b)"
  by (simp add: WriteBoolean_def WriteInt8_overflows [OF assms])

lemma exec_CWriteBytes_fits:
  assumes "well_formed b" and "offset b + len v \<le> cap b"
  shows "\<exists>b'. exec b (CWriteBytes v) = (Succeeded, b') \<and> grows_to b (len v) b'"
  using WriteBytes_fits [OF assms] by auto

lemma exec_CWriteBytes_overflows:
  assumes "well_formed b" and "len v \<le> max_len" and "cap b < offset b + len v"
  shows "exec b (CWriteBytes v) = (Failed ErrorWriteOverflow, b)"
  by (simp add: WriteBytes_overflows [OF assms])

lemma exec_CWriteString_fits:
  assumes "well_formed b" and "offset b + len v \<le> cap b"
  shows "\<exists>b'. exec b (CWriteString v) = (Succeeded, b') \<and> grows_to b (len v) b'"
  using WriteBytes_fits [OF assms] by (auto simp: WriteString_def)

lemma exec_CWriteString_overflows:
  assumes "well_formed b" and "len v \<le> max_len" and "cap b < offset b + len v"
  shows "exec b (CWriteString v) = (Failed ErrorWriteOverflow, b)"
  by (simp add: WriteString_def WriteBytes_overflows [OF assms])

lemmas exec_fits =
  exec_CWriteInt8_fits exec_CWriteBoolean_fits exec_CWriteBytes_fits exec_CWriteString_fits
  exec_CWriteUInt16_fits exec_CWriteInt16_fits exec_CWriteUInt32_fits exec_CWriteInt32_fits
  exec_CWriteUInt64_fits exec_CWriteInt64_fits exec_CWriteFloat32_fits exec_CWriteFloat64_fits

lemmas exec_overflows =
  exec_CWriteInt8_overflows exec_CWriteBoolean_overflows exec_CWriteBytes_overflows
  exec_CWriteString_overflows exec_CWriteUInt16_overflows exec_CWriteInt16_overflows
  exec_CWriteUInt32_overflows exec_CWriteInt32_overflows exec_CWriteUInt64_overflows
  exec_CWriteInt64_overflows exec_CWriteFloat32_overflows exec_CWriteFloat64_overflows

lemmas SIZEOF_defs = SIZEOF_1_BYTE_def SIZEOF_2_BYTE_def SIZEOF_4_BYTE_def SIZEOF_8_BYTE_def

lemma write_size_nonneg: "write_size w = Some n \<Longrightarrow> 0 \<le> n"
  by (cases w) (auto simp: SIZEOF_defs len_def)

lemma exec_write_fits:
  assumes "well_formed b" and "write_size w = Some n" and "offset b + n \<le> cap b"
  shows "\<exists>b'. exec b w = (Succeeded, b') \<and> grows_to b n b'"
  by (cases w) (use assms in \<open>auto simp del: exec.simps simp add: SIZEOF_defs exec_fits\<close>)

lemma exec_write_overflows:
  assumes "well_formed b" and "write_size w = Some n" and "valid_call w" and "cap b < offset b + n"
  shows "exec b w = (Failed ErrorWriteOverflow, b)"
  by (cases w) (use assms in \<open>simp_all del: exec.simps add: SIZEOF_defs exec_overflows\<close>)

lemma exec_all_writes:
  assumes "well_formed b" and "map write_size ws = map Some ns" and "offset b + sum_list ns \<le> cap b"
  shows "\<exists>b'. exec_all b ws = (map (\<lambda>_. Succeeded) ws, b') \<and> grows_to b (sum_list ns) b' \<and> well_formed b'"
  using assms
proof (induction ws arbitrary: b ns)
  case Nil
  then show ?case by (auto simp: grows_to_def well_formed_def invariant_def)
next
  case (Cons w ws)
  from Cons.prems(2) obtain n ns' where ns: "ns = n # ns'" "write_size w = Some n"
    "map write_size ws = map Some ns'"
    by (cases ns) auto
  from ns(3) have "\<forall>m \<in> set ns'. 0 \<le> m"
  proof (induction ws arbitrary: ns')
    case Nil
    then show ?case by simp
  next
    case (Cons a ws)
    then show ?case by (cases ns') (auto dest: write_size_nonneg)
  qed
  then have rest: "0 \<le> sum_list ns'"
    by (simp add: sum_list_nonneg)
  have n0: "0 \<le> n"
    by (rule write_size_nonneg [OF ns(2)])
  from Cons.prems(3) rest have fits: "offset b + n \<le> cap b"
    by (simp add: ns(1))
  from exec_write_fits [OF Cons.prems(1) ns(2) fits] obtain b1 where
    b1: "exec b w = (Succeeded, b1)" "grows_to b n b1"
    by blast
  have wf1: "well_formed b1"
    by (rule wf_grows_to [OF Cons.prems(1) n0 fits b1(2)])
  from Cons.prems(3) b1(2) have "offset b1 + sum_list ns' \<le> cap b1"
    by (simp add: ns(1) grows_to_def)
  from Cons.IH [OF wf1 ns(3) this] obtain b' where
    b': "exec_all b1 ws = (map (\<lambda>_. Succeeded) ws, b')" "grows_to b1 (sum_list ns') b'" "well_formed b'"
    by blast
  from b1(2) b'(2) n0 rest have "grows_to b (sum_list ns) b'"
    by (auto simp: grows_to_def ns(1))
  with b1(1) b'(1,3) show ?case by simp
qed

text \<open>
  Claim C5. On a buffer that \<open>NewByteBuffer(c, order)\<close> returned, write calls that ask
  for \<open>c\<close> bytes in total, or fewer, all succeed, and leave the cursor and the valid
  length at the number of bytes written. In the state they leave, every write call that
  would take the cursor past \<open>c\<close> fails with \<open>ErrorWriteOverflow\<close> and leaves the
  state, and so the cursor, the valid length and the storage, as it was.
\<close>

theorem capacity_boundary:
  assumes "NewByteBuffer c ord = Returns b0"
    and "map write_size ws = map Some ns"
    and "sum_list ns \<le> c"
  shows "\<exists>b. exec_all b0 ws = (map (\<lambda>_. Succeeded) ws, b) \<and>
           Position b = sum_list ns \<and> Length b = sum_list ns \<and> Cap b = c \<and>
           (\<forall>w n. write_size w = Some n \<and> valid_call w \<and> c < sum_list ns + n \<longrightarrow>
              exec b w = (Failed ErrorWriteOverflow, b))"
proof -
  from assms(1) have c: "0 \<le> c" "c \<le> max_len"
    and b0: "b0 = \<lparr>cap = c, buf = replicate (nat c) 0, length_bb = 0, offset = 0, order = ord\<rparr>"
    by (auto simp: NewByteBuffer_def split: if_splits)
  from c have wf0: "well_formed b0"
    by (simp add: b0 well_formed_def invariant_def len_def)
  from assms(3) have "offset b0 + sum_list ns \<le> cap b0"
    by (simp add: b0)
  from exec_all_writes [OF wf0 assms(2) this] obtain b where
    b: "exec_all b0 ws = (map (\<lambda>_. Succeeded) ws, b)" "grows_to b0 (sum_list ns) b" "well_formed b"
    by blast
  from b(2) have f: "offset b = sum_list ns" "length_bb b = max 0 (sum_list ns)" "cap b = c"
    by (simp_all add: grows_to_def b0)
  have "0 \<le> offset b"
    using b(3) by (simp add: well_formed_def invariant_def)
  with f have l: "length_bb b = sum_list ns"
    by simp
  have "exec b w = (Failed ErrorWriteOverflow, b)"
    if "write_size w = Some n" "valid_call w" "c < sum_list ns + n" for w n
    using that f by (intro exec_write_overflows [OF b(3)]) simp_all
  with b(1) f l show ?thesis
    by (auto simp: Position_def Length_def Cap_def)
qed

lemma run_three_writes:
  "exec_all \<lparr>cap = 4, buf = [0, 0, 0, 0], length_bb = 0, offset = 0, order = LittleEndian\<rparr>
     [CWriteInt8 0x41, CWriteBoolean True, CWriteUInt16 0xBEEF] =
   ([Succeeded, Succeeded, Succeeded],
    \<lparr>cap = 4, buf = [0x41, 1, 0xEF, 0xBE], length_bb = 4, offset = 4, order = LittleEndian\<rparr>)"
  by (simp add: WriteInt8_def WriteBoolean_def WriteUInt16_def applyWrite_def add_int_def
      SIZEOF_defs TRUE_def in_range_def len_def store_at_def slice_from_def Let_def)

theorem capacity_boundary_witness:
  "NewByteBuffer 4 LittleEndian =
     Returns \<lparr>cap = 4, buf = [0, 0, 0, 0], length_bb = 0, offset = 0, order = LittleEndian\<rparr> \<and>
   map write_size [CWriteInt8 0x41, CWriteBoolean True, CWriteUInt16 0xBEEF] = map Some [1, 1, 2] \<and>
   sum_list [1, 1, 2] \<le> (4 :: int) \<and>
   exec_all \<lparr>cap = 4, buf = [0, 0, 0, 0], length_bb = 0, offset = 0, order = LittleEndian\<rparr>
     [CWriteInt8 0x41, CWriteBoolean True, CWriteUInt16 0xBEEF] =
   ([Succeeded, Succeeded, Succeeded],
    \<lparr>cap = 4, buf = [0x41, 1, 0xEF, 0xBE], length_bb = 4, offset = 4, order = LittleEndian\<rparr>) \<and>
   write_size (CWriteInt8 9) = Some 1 \<and> valid_call (CWriteInt8 9) \<and>
   (4 :: int) < sum_list [1, 1, 2] + 1 \<and>
   exec \<lparr>cap = 4, buf = [0x41, 1, 0xEF, 0xBE], length_bb = 4, offset = 4, order = LittleEndian\<rparr>
     (CWriteInt8 9) =
   (Failed ErrorWriteOverflow,
    \<lparr>cap = 4, buf = [0x41, 1, 0xEF, 0xBE], length_bb = 4, offset = 4, order = LittleEndian\<rparr>)"
proof -
  let ?b0 = "\<lparr>cap = 4, buf = [0, 0, 0, 0], length_bb = 0, offset = 0, order = LittleEndian\<rparr>"
  let ?ws = "[CWriteInt8 0x41, CWriteBoolean True, CWriteUInt16 0xBEEF]"
  have new: "NewByteBuffer 4 LittleEndian = Returns ?b0"
    by (simp add: NewByteBuffer_def max_len_def numeral_eq_Suc)
  have sizes: "map write_size ?ws = map Some [1, 1, 2]"
    by (simp add: SIZEOF_defs)
  have total: "sum_list [1, 1, 2] \<le> (4 :: int)"
    by simp
  have w: "write_size (CWriteInt8 9) = Some 1" "valid_call (CWriteInt8 9)"
    "(4 :: int) < sum_list [1, 1, 2] + 1"
    by (simp_all add: SIZEOF_defs)
  from capacity_boundary [OF new sizes total] obtain b where
    b: "exec_all ?b0 ?ws = (map (\<lambda>_. Succeeded) ?ws, b)"
      "\<forall>w n. write_size w = Some n \<and> valid_call w \<and> 4 < sum_list [1, 1, 2] + n \<longrightarrow>
         exec b w = (Failed ErrorWriteOverflow, b)"
    by blast
  from b(1) have "b = \<lparr>cap = 4, buf = [0x41, 1, 0xEF, 0xBE], length_bb = 4, offset = 4,
      order = LittleEndian\<rparr>"
    by (simp only: run_three_writes prod.inject)
  with b(2) w have "exec \<lparr>cap = 4, buf = [0x41, 1, 0xEF, 0xBE], length_bb = 4, offset = 4,
      order = LittleEndian\<rparr> (CWriteInt8 9) =
    (Failed ErrorWriteOverflow, \<lparr>cap = 4, buf = [0x41, 1, 0xEF, 0xBE], length_bb = 4,
      offset = 4, order = LittleEndian\<rparr>)"
    by blast
  with new sizes total w run_three_writes show ?thesis
    by (intro conjI)
qed


section \<open>The invariant of the cursor\<close>

lemma wf_cursor_moved:
  "well_formed b \<Longrightarrow> offset b \<le> p \<Longrightarrow> p \<le> length_bb b \<Longrightarrow> well_formed (b\<lparr>offset := p\<rparr>)"
  by (auto simp: well_formed_def invariant_def)

lemma applyRead_wf:
  assumes well_formed: "well_formed b" and sz: "0 \<le> sz" "sz \<le> max_len"
  shows "well_formed (snd (applyRead b sz)) \<and> cap (snd (applyRead b sz)) = cap b"
proof -
  have "add_int (offset b) sz = offset b + sz"
    using well_formed sz by (intro add_int_small) (auto simp: well_formed_def invariant_def)
  with well_formed sz show ?thesis
    by (auto simp: applyRead_def intro: wf_cursor_moved)
qed

lemma snd_load_shape:
  "snd (case applyRead b sz of ((off, ok), b1) \<Rightarrow>
      if \<not> ok then (r, b1) else load_at b1 off (get b1) conv) = snd (applyRead b sz)"
  by (cases "applyRead b sz") (auto simp: snd_load_at)

lemma snd_ReadInt8: "snd (ReadInt8 b) = snd (applyRead b 1)"
  by (cases "applyRead b 1") (auto simp: ReadInt8_def SIZEOF_defs)

lemma store_at_wf:
  assumes well_formed: "well_formed b" and same: "\<And>s s'. put s = Some s' \<Longrightarrow> length s' = length s"
  shows "well_formed (snd (store_at b off put)) \<and> cap (snd (store_at b off put)) = cap b"
proof (cases "slice_from (buf b) off")
  case None
  with well_formed show ?thesis by (simp add: store_at_def)
next
  case (Some dst)
  then have off: "0 \<le> off" "off \<le> len (buf b)" and dst: "dst = drop (nat off) (buf b)"
    by (auto simp: slice_from_def split: if_splits)
  show ?thesis
  proof (cases "put dst")
    case None
    with Some well_formed show ?thesis by (simp add: store_at_def)
  next
    case put: (Some dst')
    from same [OF put] off have "length (take (nat off) (buf b) @ dst') = length (buf b)"
      by (simp add: dst len_def)
    with well_formed Some put show ?thesis
      by (simp add: store_at_def well_formed_def invariant_def len_def)
  qed
qed

lemma wf_write_call:
  assumes well_formed: "well_formed b" and w: "write_size w = Some n" and v: "valid_call w"
  shows "well_formed (snd (exec b w)) \<and> cap (snd (exec b w)) = cap b"
proof (cases "offset b + n \<le> cap b")
  case True
  from exec_write_fits [OF well_formed w True] obtain b' where
    b': "exec b w = (Succeeded, b')" "grows_to b n b'"
    by blast
  from wf_grows_to [OF well_formed write_size_nonneg [OF w] True b'(2)] b' show ?thesis
    by (simp add: grows_to_def)
next
  case False
  then have "cap b < offset b + n" by simp
  from exec_write_overflows [OF well_formed w v this] well_formed show ?thesis by simp
qed

lemma wf_ReadString:
  assumes well_formed: "well_formed b" and n: "offset b + n \<le> max_int"
  shows "well_formed (snd (ReadString b n)) \<and> cap (snd (ReadString b n)) = cap b"
proof -
  consider "n = 0" | "n < 0" | "0 < n" by linarith
  then show ?thesis
  proof cases
    case 1
    with well_formed show ?thesis by (simp add: ReadString_def)
  next
    case 2
    let ?t = "takeWhile (\<lambda>x. x \<noteq> 0) (unread b)"
    have "length ?t \<le> length (unread b)"
      by (rule length_takeWhile_le)
    with length_unread [OF well_formed] have "offset b + len ?t \<le> length_bb b"
      by (simp add: len_def)
    moreover have "offset b \<le> offset b + len ?t"
      by (simp add: len_def)
    ultimately have "well_formed (b\<lparr>offset := offset b + len ?t\<rparr>)"
      by (rule wf_cursor_moved [OF well_formed, rotated])
    then show ?thesis
      by (simp add: ReadString_negative [OF well_formed 2])
  next
    case 3
    with well_formed n have "add_int (offset b) n = offset b + n"
      by (intro add_int_id) (auto simp: well_formed_def invariant_def max_int_def)
    with well_formed 3 show ?thesis
      by (auto simp: ReadString_positive_length split: option.splits intro: wf_cursor_moved)
  qed
qed

lemma wf_ReadBytes:
  assumes well_formed: "well_formed b" and d: "len dst \<le> max_len"
  shows "well_formed (snd (ReadBytes b dst n)) \<and> cap (snd (ReadBytes b dst n)) = cap b"
proof -
  have d0: "0 \<le> len dst" by (simp add: len_def)
  consider "n = 0" | "n < 0" | "0 < n" "n > len dst" | "0 < n" "\<not> n > len dst"
    by linarith
  then show ?thesis
  proof cases
    case 1
    with well_formed show ?thesis by (simp add: ReadBytes_def)
  next
    case 2
    from applyRead_wf [OF well_formed d0 d] 2 show ?thesis
      by (cases "applyRead b (len dst)")
        (auto simp: ReadBytes_def Let_def split: option.splits)
  next
    case 3
    with well_formed show ?thesis by (simp add: ReadBytes_def)
  next
    case 4
    with d have "0 \<le> n" "n \<le> max_len" by simp_all
    from applyRead_wf [OF well_formed this] 4 show ?thesis
      by (cases "applyRead b n") (auto simp: ReadBytes_def Let_def split: option.splits)
  qed
qed


lemma wf_fixed_read:
  assumes "well_formed b" and "0 \<le> sz" and "sz \<le> 8"
  shows "well_formed (snd (case applyRead b sz of ((off, ok), b1) \<Rightarrow>
            if \<not> ok then (r, b1) else load_at b1 off (get b1) conv)) \<and>
         cap (snd (case applyRead b sz of ((off, ok), b1) \<Rightarrow>
            if \<not> ok then (r, b1) else load_at b1 off (get b1) conv)) = cap b"
  unfolding snd_load_shape using assms by (intro applyRead_wf) (simp_all add: max_len_def)

lemma wf_guarded_store:
  assumes "well_formed b" and "\<And>s s'. put s = Some s' \<Longrightarrow> length s' = length s"
  shows "well_formed (snd (if g then (r, b) else store_at b off put)) \<and>
         cap (snd (if g then (r, b) else store_at b off put)) = cap b"
  using assms(1) store_at_wf [OF assms] by simp

lemma wf_ReadUInt16: "well_formed b \<Longrightarrow> well_formed (snd (ReadUInt16 b)) \<and> cap (snd (ReadUInt16 b)) = cap b"
  unfolding ReadUInt16_def SIZEOF_defs by (rule wf_fixed_read) simp_all

lemma wf_ReadInt16: "well_formed b \<Longrightarrow> well_formed (snd (ReadInt16 b)) \<and> cap (snd (ReadInt16 b)) = cap b"
  unfolding ReadInt16_def SIZEOF_defs by (rule wf_fixed_read) simp_all

lemma wf_ReadUInt32: "well_formed b \<Longrightarrow> well_formed (snd (ReadUInt32 b)) \<and> cap (snd (ReadUInt32 b)) = cap b"
  unfolding ReadUInt32_def SIZEOF_defs by (rule wf_fixed_read) simp_all

lemma wf_ReadInt32: "well_formed b \<Longrightarrow> well_formed (snd (ReadInt32 b)) \<and> cap (snd (ReadInt32 b)) = cap b"
  unfolding ReadInt32_def SIZEOF_defs by (rule wf_fixed_read) simp_all

lemma wf_ReadUInt64: "well_formed b \<Longrightarrow> well_formed (snd (ReadUInt64 b)) \<and> cap (snd (ReadUInt64 b)) = cap b"
  unfolding ReadUInt64_def SIZEOF_defs by (rule wf_fixed_read) simp_all

lemma wf_ReadInt64: "well_formed b \<Longrightarrow> well_formed (snd (ReadInt64 b)) \<and> cap (snd (ReadInt64 b)) = cap b"
  unfolding ReadInt64_def SIZEOF_defs by (rule wf_fixed_read) simp_all

lemma wf_ReadFloat32: "well_formed b \<Longrightarrow> well_formed (snd (ReadFloat32 b)) \<and> cap (snd (ReadFloat32 b)) = cap b"
  unfolding ReadFloat32_def SIZEOF_defs by (rule wf_fixed_read) simp_all

lemma wf_ReadFloat64: "well_formed b \<Longrightarrow> well_formed (snd (ReadFloat64 b)) \<and> cap (snd (ReadFloat64 b)) = cap b"
  unfolding ReadFloat64_def SIZEOF_defs by (rule wf_fixed_read) simp_all

lemma wf_PutUInt16: "well_formed b \<Longrightarrow> well_formed (snd (PutUInt16 b off v)) \<and> cap (snd (PutUInt16 b off v)) = cap b"
  unfolding PutUInt16_def by (rule wf_guarded_store) (auto dest: PutUint16_length)

lemma wf_PutUInt32: "well_formed b \<Longrightarrow> well_formed (snd (PutUInt32 b off v)) \<and> cap (snd (PutUInt32 b off v)) = cap b"
  unfolding PutUInt32_def by (rule wf_guarded_store) (auto dest: PutUint32_length)

lemma wf_PutUInt64: "well_formed b \<Longrightarrow> well_formed (snd (PutUInt64 b off v)) \<and> cap (snd (PutUInt64 b off v)) = cap b"
  unfolding PutUInt64_def by (rule wf_guarded_store) (auto dest: PutUint64_length)

lemma wf_ReadInt8: "well_formed b \<Longrightarrow> well_formed (snd (ReadInt8 b)) \<and> cap (snd (ReadInt8 b)) = cap b"
  unfolding snd_ReadInt8 by (rule applyRead_wf) (simp_all add: max_len_def)

lemma wf_ReadBoolean: "well_formed b \<Longrightarrow> well_formed (snd (ReadBoolean b)) \<and> cap (snd (ReadBoolean b)) = cap b"
  by (simp add: ReadBoolean_as_ReadInt8 wf_ReadInt8)

lemma wf_SetPosition:
  "well_formed b \<Longrightarrow> well_formed (snd (SetPosition b p)) \<and> cap (snd (SetPosition b p)) = cap b"
  by (auto simp: SetPosition_def well_formed_def invariant_def)

lemma wf_Reset: "well_formed b \<Longrightarrow> well_formed (Reset b) \<and> cap (Reset b) = cap b"
  by (auto simp: Reset_def well_formed_def invariant_def)

lemmas wf_reads =
  wf_ReadInt8 wf_ReadBoolean wf_ReadUInt16 wf_ReadInt16 wf_ReadUInt32 wf_ReadInt32
  wf_ReadUInt64 wf_ReadInt64 wf_ReadFloat32 wf_ReadFloat64

lemma invariant_preserved:
  assumes well_formed: "well_formed b" and v: "valid_call c"
    and n: "\<forall>n. c = CReadString n \<longrightarrow> offset b + n \<le> max_int"
  shows "well_formed (snd (exec b c)) \<and> cap (snd (exec b c)) = cap b"
proof (cases "write_size c")
  case (Some n)
  from wf_write_call [OF well_formed Some v] show ?thesis .
next
  case None
  show ?thesis
  proof (cases c)
    case (CReadString m)
    with n wf_ReadString [OF well_formed, of m] show ?thesis by simp
  next
    case (CReadBytes dst m)
    with v wf_ReadBytes [OF well_formed, of dst m] show ?thesis by simp
  next
    case CData
    with well_formed show ?thesis by (simp split: outcome.splits)
  qed (use well_formed None in \<open>simp_all add: wf_reads wf_SetPosition wf_Reset wf_PutUInt16 wf_PutUInt32
      wf_PutUInt64 snd_GetUInt16 snd_GetUInt32 snd_GetUInt64 wf_SetOrder fields_SetOrder\<close>)
qed

lemma NewByteBuffer_wf: "NewByteBuffer c ord = Returns b \<Longrightarrow> well_formed b \<and> cap b = c"
  by (auto simp: NewByteBuffer_def well_formed_def invariant_def len_def split: if_splits)

lemma one_written_reached:
  "NewByteBuffer 8 LittleEndian =
     Returns \<lparr>cap = 8, buf = [0, 0, 0, 0, 0, 0, 0, 0], length_bb = 0, offset = 0,
       order = LittleEndian\<rparr>"
  "WriteInt8 \<lparr>cap = 8, buf = [0, 0, 0, 0, 0, 0, 0, 0], length_bb = 0, offset = 0,
       order = LittleEndian\<rparr> 0x41 = (Returns None, one_written)"
  by (simp_all add: NewByteBuffer_def max_len_def numeral_eq_Suc WriteInt8_def applyWrite_def
      add_int_def SIZEOF_defs in_range_def len_def one_written_def)


text \<open>
  Claim C8 (every call keeps \<open>0 \<le> cursor \<le> validLength \<le> capacity\<close> and the capacity)
  fails on the code. After \<open>NewByteBuffer(8, LittleEndian)\<close> and \<open>WriteInt8(0x41)\<close> the
  cursor is 1. In \<open>ReadString(9223372036854775807)\<close> both guards compute
  \<open>buf.offset + length\<close>, which wraps to the least \<open>int\<close> and so is not above the valid
  length; \<open>applyRead\<close> then adds the length to the cursor, and the slice expression
  panics. The call leaves the cursor at \<open>-9223372036854775808\<close>.
\<close>

theorem ReadString_overflow_breaks_invariant:
  "NewByteBuffer 8 LittleEndian =
     Returns \<lparr>cap = 8, buf = [0, 0, 0, 0, 0, 0, 0, 0], length_bb = 0, offset = 0,
       order = LittleEndian\<rparr> \<and>
   WriteInt8 \<lparr>cap = 8, buf = [0, 0, 0, 0, 0, 0, 0, 0], length_bb = 0, offset = 0,
       order = LittleEndian\<rparr> 0x41 = (Returns None, one_written) \<and>
   well_formed one_written \<and> invariant one_written \<and> valid_call (CReadString 9223372036854775807) \<and>
   ReadString one_written 9223372036854775807 =
     (Panics, one_written\<lparr>offset := - 9223372036854775808\<rparr>) \<and>
   exec one_written (CReadString 9223372036854775807) =
     (Panicked, one_written\<lparr>offset := - 9223372036854775808\<rparr>) \<and>
   Position (snd (exec one_written (CReadString 9223372036854775807))) < 0 \<and>
   \<not> invariant (snd (exec one_written (CReadString 9223372036854775807)))"
proof -
  have a: "add_int 1 9223372036854775807 = - 9223372036854775808"
    using add_int_wraps [of 1 9223372036854775807] by simp
  have f: "offset one_written = 1" "length_bb one_written = 1"
    by (simp_all add: one_written_def)
  have rs: "ReadString one_written 9223372036854775807 =
      (Panics, one_written\<lparr>offset := - 9223372036854775808\<rparr>)"
    by (simp add: ReadString_positive_length f a slice_range_def)
  have well_formed: "well_formed one_written"
    by (simp add: well_formed_def invariant_def len_def max_len_def one_written_def)
  have v: "valid_call (CReadString 9223372036854775807)"
    by (simp add: is_int_def min_int_def max_int_def)
  have i: "invariant one_written"
    using well_formed by (simp add: well_formed_def)
  have bad: "\<not> invariant (one_written\<lparr>offset := - 9223372036854775808\<rparr>)"
    by (simp add: invariant_def)
  from rs well_formed v i bad one_written_reached show ?thesis
    by (simp add: Position_def)
qed

text \<open>
  Below that overflow the invariant holds: from a well-formed state, every call whose
  arguments are Go values leaves a well-formed state, with the cursor between 0 and the
  valid length, the valid length at most the capacity and the capacity unchanged, when
  for \<open>ReadString\<close> the sum of the cursor and the length is an \<open>int\<close>.
\<close>

theorem invariant_kept_below_overflow:
  assumes "well_formed b" and "valid_call c"
    and "\<forall>n. c = CReadString n \<longrightarrow> Position b + n \<le> max_int"
  shows "well_formed (snd (exec b c)) \<and> invariant (snd (exec b c)) \<and> Cap (snd (exec b c)) = Cap b"
  using invariant_preserved [of b c] assms by (simp add: Position_def Cap_def well_formed_def)

theorem invariant_kept_below_overflow_witness:
  "well_formed written_AB0C \<and> valid_call (CReadString 2) \<and> Position written_AB0C + 2 \<le> max_int \<and>
   well_formed (snd (exec written_AB0C (CReadString 2))) \<and>
   invariant (snd (exec written_AB0C (CReadString 2))) \<and>
   Cap (snd (exec written_AB0C (CReadString 2))) = Cap written_AB0C \<and>
   valid_call (CWriteInt8 7) \<and>
   invariant (snd (exec written_AB0C (CWriteInt8 7))) \<and>
   Cap (snd (exec written_AB0C (CWriteInt8 7))) = Cap written_AB0C"
proof -
  have v: "valid_call (CReadString 2)" "valid_call (CWriteInt8 7)"
    "Position written_AB0C + 2 \<le> max_int"
    by (simp_all add: is_int_def min_int_def max_int_def Position_def written_AB0C_def)
  from invariant_kept_below_overflow [OF wf_written_AB0C(1) v(1)]
    invariant_kept_below_overflow [OF wf_written_AB0C(1) v(2)] v wf_written_AB0C(1)
  show ?thesis by simp
qed

end
